(* ===== verification/Prelude.thy ===== *)
theory Prelude
  imports Main "HOL-Library.Multiset" "HOL-Library.List_Lexorder" "HOL-Library.Char_ord"
    "HOL-Library.Option_ord" "HOL-Library.Sublist"
begin

text \<open>
  Shared vocabulary of the development. The site's build code is TypeScript run by
  Node.js at build time; what can go wrong there is an exception (a \<open>TypeError\<close> when a
  property of \<open>null\<close> is read) or a rejected promise (an external service that cannot be
  reached). Both are values of \<open>js_error\<close>, and a computation that may throw returns
  \<open>'a js_result\<close>, with \<open>Inl\<close> the error. \<open>js_bind\<close> sequences two such computations
  the way \<open>await\<close> does: the first exception ends the whole computation.
  The collection \<open>js_simps\<close> gathers the evaluation rules the component theories share.
\<close>

named_theorems js_simps "evaluation rules of the JavaScript runtime model"

datatype js_error =
    TypeError string  \<comment> \<open>reading a property of \<open>null\<close> or \<open>undefined\<close>\<close>
  | Rejected string   \<comment> \<open>an awaited call to an external service failed\<close>
  | SerializeError string  \<comment> \<open>Next.js refuses props that are not JSON values\<close>

type_synonym 'a js_result = "js_error + 'a"

definition js_bind :: "'a js_result \<Rightarrow> ('a \<Rightarrow> 'b js_result) \<Rightarrow> 'b js_result" where
  "js_bind r f = (case r of Inl e \<Rightarrow> Inl e | Inr a \<Rightarrow> f a)"

definition js_map :: "('a \<Rightarrow> 'b) \<Rightarrow> 'a js_result \<Rightarrow> 'b js_result" where
  "js_map f r = js_bind r (\<lambda>a. Inr (f a))"

text \<open>
  \<open>js_all\<close> awaits a list of results in order and fails with the first failure, as a
  sequence of \<open>await\<close>s does (and as \<open>Promise.all\<close> does when at most one of its
  promises rejects).
\<close>

fun js_all :: "'a js_result list \<Rightarrow> 'a list js_result" where
  "js_all [] = Inr []"
| "js_all (r # rs) = js_bind r (\<lambda>a. js_map (\<lambda>as. a # as) (js_all rs))"

text \<open>
  JavaScript's \<open>x || 0\<close> on an optional number: \<open>undefined\<close> (and \<open>0\<close>) give \<open>0\<close>.
  \<open>String(x)\<close> on an optional string: \<open>null\<close> becomes the text \<open>"null"\<close>, which is what
  \<open>localeCompare\<close> compares against when it is passed \<open>null\<close>.
\<close>

definition js_or_zero :: "int option \<Rightarrow> int" where
  "js_or_zero x = (case x of None \<Rightarrow> 0 | Some n \<Rightarrow> n)"

definition js_to_string :: "string option \<Rightarrow> string" where
  "js_to_string x = (case x of None \<Rightarrow> ''null'' | Some s \<Rightarrow> s)"

subsection \<open>Evaluation rules\<close>

lemma js_bind_simps [simp, js_simps]:
  "js_bind (Inl e) f = Inl e"
  "js_bind (Inr a) f = f a"
  by (simp_all add: js_bind_def)

lemma js_map_simps [simp, js_simps]:
  "js_map f (Inl e) = Inl e"
  "js_map f (Inr a) = Inr (f a)"
  by (simp_all add: js_map_def)

lemma js_bind_eq_Inr [js_simps]:
  "js_bind r f = Inr b \<longleftrightarrow> (\<exists>a. r = Inr a \<and> f a = Inr b)"
  by (cases r) simp_all

lemma js_map_eq_Inr [js_simps]:
  "js_map f r = Inr b \<longleftrightarrow> (\<exists>a. r = Inr a \<and> b = f a)"
  by (cases r) auto

lemma js_or_zero_simps [simp, js_simps]:
  "js_or_zero None = 0"
  "js_or_zero (Some n) = n"
  by (simp_all add: js_or_zero_def)

lemma js_to_string_simps [simp, js_simps]:
  "js_to_string None = ''null''"
  "js_to_string (Some s) = s"
  by (simp_all add: js_to_string_def)

subsection \<open>Awaiting a list of results\<close>

lemma js_all_map_Inr [simp]: "js_all (map (\<lambda>x. Inr (f x)) xs) = Inr (map f xs)"
  by (induction xs) simp_all

lemma js_all_eq_Inr:
  "js_all rs = Inr vs \<longleftrightarrow> rs = map Inr vs"
proof (induction rs arbitrary: vs)
  case Nil
  then show ?case by auto
next
  case (Cons r rs)
  then show ?case
    by (cases r) (auto simp: js_map_eq_Inr)
qed

lemma js_all_Inl_iff:
  "(\<exists>e. js_all rs = Inl e) \<longleftrightarrow> (\<exists>r\<in>set rs. isl r)"
proof (induction rs)
  case Nil
  then show ?case by simp
next
  case (Cons r rs)
  then show ?case
    by (cases r; cases "js_all rs") auto
qed

lemma js_all_map_Inr_cong:
  "\<forall>x\<in>set xs. f x = Inr (g x) \<Longrightarrow> js_all (map f xs) = Inr (map g xs)"
  by (induction xs) simp_all

lemma js_all_no_isl: "\<forall>r\<in>set rs. \<not> isl r \<Longrightarrow> \<exists>vs. js_all rs = Inr vs"
  using js_all_Inl_iff[of rs] by (cases "js_all rs") auto

lemma map_Inr_rel:
  "map f xs = map Inr ys \<Longrightarrow> (\<And>x y. f x = Inr y \<Longrightarrow> g y = k x) \<Longrightarrow> map g ys = map k xs"
proof (induction xs arbitrary: ys)
  case Nil
  then show ?case by simp
next
  case (Cons x xs)
  then show ?case by (cases ys) auto
qed

lemma map_Inr_list_all2:
  "map f xs = map Inr ys \<Longrightarrow> (\<And>x y. f x = Inr y \<Longrightarrow> R x y) \<Longrightarrow> list_all2 R xs ys"
proof (induction xs arbitrary: ys)
  case Nil
  then show ?case by simp
next
  case (Cons x xs)
  then show ?case by (cases ys) auto
qed

lemma js_all_Inr_list_all2:
  "js_all (map f xs) = Inr ys \<Longrightarrow> (\<And>x y. f x = Inr y \<Longrightarrow> R x y) \<Longrightarrow> list_all2 R xs ys"
  by (rule map_Inr_list_all2) (simp_all add: js_all_eq_Inr)

subsection \<open>Lists updated at an index\<close>

text \<open>Facts on \<open>xs[i := y]\<close> for the models whose state is a list of component states
  updated one component at a time.\<close>

lemma mset_concat_update:
  "i < length xss \<Longrightarrow> mset (concat (xss[i := ys])) + mset (xss ! i) = mset (concat xss) + mset ys"
proof (induction xss arbitrary: i)
  case Nil
  then show ?case by simp
next
  case (Cons xs xss)
  then show ?case by (cases i) (simp_all add: add_ac)
qed

lemma map2_update:
  "i < length xs \<Longrightarrow> length ps = length xs \<Longrightarrow>
     map2 g ps (xs[i := y]) = (map2 g ps xs)[i := g (ps ! i) y]"
  by (rule nth_equalityI) (auto simp: nth_list_update)

lemma in_set_update_other: "x \<in> set xs \<Longrightarrow> xs ! i \<noteq> x \<Longrightarrow> x \<in> set (xs[i := y])"
  by (metis in_set_conv_nth length_list_update nth_list_update_neq)

end
