(* ===== verification/JsRuntime.thy ===== *)
theory JsRuntime
  imports Prelude
begin

text \<open>
  The two library routines of the JavaScript runtime that the page builders rely on:
  \<open>String.prototype.localeCompare\<close> (the achievements' sort key) and the comparison
  sort behind \<open>Array.prototype.sort\<close>. Neither is code of the repository; they are
  modelled from their specification. \<open>locale_compare\<close> compares code units
  lexicographically (the spec's reading of the achievements' order; on ISO date strings
  it agrees with the default collation). This theory holds the reference sort
  \<open>js_sort_ref\<close>: a stable insertion sort that scans the sorted part from its front and
  calls the comparator as \<open>cmp pivot element\<close>, placing the pivot before the element
  when the comparator returns a negative number; a comparator that throws aborts the
  sort. The engine's own algorithm, which compares in a different order, is
  \<open>js_sort\<close> in theory \<open>V8Sort\<close>, shown equal to this reference for key comparators.
  The main results here: with a comparator that orders by a key, descending, the
  reference equals the library's stable sort of the reversed input, reversed
  (\<open>js_sort_ref_descending\<close>); whatever the comparator, a sort that returns keeps the
  multiset of elements (\<open>js_sort_ref_mset\<close>).
\<close>

subsection \<open>\<open>String.prototype.localeCompare\<close>\<close>

fun locale_compare :: "string \<Rightarrow> string \<Rightarrow> int" where
  "locale_compare [] [] = 0"
| "locale_compare [] (_ # _) = -1"
| "locale_compare (_ # _) [] = 1"
| "locale_compare (a # as) (b # bs) =
     (if a < b then -1 else if b < a then 1 else locale_compare as bs)"

subsection \<open>\<open>Array.prototype.sort\<close>\<close>

type_synonym 'a comparator = "'a \<Rightarrow> 'a \<Rightarrow> int js_result"

fun sort_insert :: "'a comparator \<Rightarrow> 'a \<Rightarrow> 'a list \<Rightarrow> 'a list js_result" where
  "sort_insert cmp x [] = Inr [x]"
| "sort_insert cmp x (y # ys) =
     js_bind (cmp x y) (\<lambda>order.
       if order < 0 then Inr (x # y # ys)
       else js_map (\<lambda>zs. y # zs) (sort_insert cmp x ys))"

fun js_sort_acc :: "'a comparator \<Rightarrow> 'a list \<Rightarrow> 'a list \<Rightarrow> 'a list js_result" where
  "js_sort_acc cmp sorted_part [] = Inr sorted_part"
| "js_sort_acc cmp sorted_part (x # xs) =
     js_bind (sort_insert cmp x sorted_part) (\<lambda>acc. js_sort_acc cmp acc xs)"

definition js_sort_ref :: "'a comparator \<Rightarrow> 'a list \<Rightarrow> 'a list js_result" where
  "js_sort_ref cmp xs = js_sort_acc cmp [] xs"

text \<open>
  A comparator orders a set descending by a key \<open>f\<close> when it never throws there and
  is negative exactly when its first argument has the larger key.
\<close>

definition cmp_descending_by :: "'a comparator \<Rightarrow> ('a \<Rightarrow> 'k::linorder) \<Rightarrow> 'a set \<Rightarrow> bool" where
  "cmp_descending_by cmp f A \<longleftrightarrow>
     (\<forall>x\<in>A. \<forall>y\<in>A. case cmp x y of Inl _ \<Rightarrow> False | Inr c \<Rightarrow> (c < 0 \<longleftrightarrow> f y < f x))"

subsection \<open>\<open>localeCompare\<close> is the lexicographic order\<close>

lemma locale_compare_neg_iff [simp]: "locale_compare s t < 0 \<longleftrightarrow> s < t"
  by (induction s t rule: locale_compare.induct) (auto simp: not_less_iff_gr_or_eq)

lemma locale_compare_zero_iff [simp]: "locale_compare s t = 0 \<longleftrightarrow> s = t"
  by (induction s t rule: locale_compare.induct) (auto simp: not_less_iff_gr_or_eq)

lemma locale_compare_pos_iff [simp]: "0 < locale_compare s t \<longleftrightarrow> t < s"
  by (induction s t rule: locale_compare.induct) (auto simp: not_less_iff_gr_or_eq)

subsection \<open>The sort keeps its elements\<close>

lemma sort_insert_mset:
  "sort_insert cmp x ys = Inr zs \<Longrightarrow> mset zs = add_mset x (mset ys)"
  by (induction cmp x ys arbitrary: zs rule: sort_insert.induct)
     (auto simp: js_bind_eq_Inr js_map_eq_Inr split: if_splits)

lemma js_sort_acc_append:
  "js_sort_acc cmp acc (xs @ ys) = js_bind (js_sort_acc cmp acc xs) (\<lambda>acc'. js_sort_acc cmp acc' ys)"
  by (induction xs arbitrary: acc) (simp_all add: js_bind_def split: sum.split)

lemma js_sort_acc_mset:
  "js_sort_acc cmp acc xs = Inr zs \<Longrightarrow> mset zs = mset acc + mset xs"
proof (induction cmp acc xs arbitrary: zs rule: js_sort_acc.induct)
  case (1 cmp acc)
  then show ?case by simp
next
  case (2 cmp acc x xs)
  then obtain acc' where ins: "sort_insert cmp x acc = Inr acc'"
    and rest: "js_sort_acc cmp acc' xs = Inr zs"
    by (auto simp: js_bind_eq_Inr)
  from ins have "mset acc' = add_mset x (mset acc)" by (rule sort_insert_mset)
  with "2.IH"[OF rest] show ?case by simp
qed

lemma js_sort_ref_mset:
  "js_sort_ref cmp xs = Inr ys \<Longrightarrow> mset ys = mset xs"
  using js_sort_acc_mset[of cmp "[]" xs ys] by (simp add: js_sort_ref_def)

subsection \<open>With a key comparator, the sort is the library's stable sort\<close>

lemma insort_key_snoc_le:
  "f x \<le> f w \<Longrightarrow> insort_key f x (ws @ [w]) = insort_key f x ws @ [w]"
  by (induction ws) auto

lemma insort_key_all_less:
  "\<forall>y\<in>set zs. f y < f x \<Longrightarrow> insort_key f x zs = zs @ [x]"
  by (induction zs) auto

lemma sort_insert_rev_insort:
  assumes "cmp_descending_by cmp f A" "x \<in> A" "set zs \<subseteq> A" "sorted (map f zs)"
  shows "sort_insert cmp x (rev zs) = Inr (rev (insort_key f x zs))"
  using assms(3,4)
proof (induction zs rule: rev_induct)
  case Nil
  then show ?case by simp
next
  case (snoc w ws)
  from snoc.prems have w: "w \<in> A" and ws: "set ws \<subseteq> A" "sorted (map f ws)"
    and below: "\<forall>y\<in>set ws. f y \<le> f w"
    by (auto simp: sorted_append)
  from assms(1,2) w obtain c where c: "cmp x w = Inr c" and c_iff: "c < 0 \<longleftrightarrow> f w < f x"
    unfolding cmp_descending_by_def by (fastforce split: sum.splits)
  show ?case
  proof (cases "f w < f x")
    case True
    with below have "\<forall>y\<in>set (ws @ [w]). f y < f x" by fastforce
    with True c c_iff show ?thesis by (simp add: insort_key_all_less)
  next
    case False
    with c c_iff snoc.IH[OF ws] show ?thesis by (simp add: insort_key_snoc_le)
  qed
qed

lemma js_sort_acc_descending:
  assumes "cmp_descending_by cmp f A" "set ys \<subseteq> A" "set xs \<subseteq> A"
  shows "js_sort_acc cmp (rev (sort_key f (rev ys))) xs = Inr (rev (sort_key f (rev (ys @ xs))))"
  using assms(2,3)
proof (induction xs arbitrary: ys)
  case Nil
  then show ?case by simp
next
  case (Cons x xs)
  have "sort_insert cmp x (rev (sort_key f (rev ys))) = Inr (rev (insort_key f x (sort_key f (rev ys))))"
    using Cons.prems by (intro sort_insert_rev_insort[OF assms(1)]) auto
  then have ins: "sort_insert cmp x (rev (sort_key f (rev ys))) = Inr (rev (sort_key f (rev (ys @ [x]))))"
    by simp
  have rest: "js_sort_acc cmp (rev (sort_key f (rev (ys @ [x])))) xs
      = Inr (rev (sort_key f (rev ((ys @ [x]) @ xs))))"
    using Cons.prems by (intro Cons.IH) auto
  show ?case
    by (simp only: js_sort_acc.simps(2) ins js_bind_simps rest append_assoc append.simps)
qed

lemma js_sort_ref_descending:
  assumes "cmp_descending_by cmp f (set xs)"
  shows "js_sort_ref cmp xs = Inr (rev (sort_key f (rev xs)))"
  using js_sort_acc_descending[OF assms, of "[]" xs] by (simp add: js_sort_ref_def)

text \<open>What the result of a descending key sort is: sorted by the key from largest to
  smallest, a permutation of the input, and stable (elements of equal key keep their
  input order).\<close>

lemma rev_sort_key_rev_sorted: "sorted_wrt (\<ge>) (map f (rev (sort_key f (rev xs))))"
  by (simp add: rev_map[symmetric] sorted_wrt_rev)

lemma rev_sort_key_rev_mset [simp]: "mset (rev (sort_key f (rev xs))) = mset xs"
  by simp

lemma rev_sort_key_rev_stable:
  "filter (\<lambda>y. f y = k) (rev (sort_key f (rev xs))) = filter (\<lambda>y. f y = k) xs"
  by (simp add: rev_filter[symmetric] sort_key_stable)

text \<open>For integer keys, descending order is ascending order of the negated key.\<close>

lemma rev_sort_key_rev_int:
  fixes f :: "'a \<Rightarrow> int"
  shows "rev (sort_key f (rev xs)) = sort_key (\<lambda>x. - f x) xs"
proof (rule properties_for_sort_key[symmetric])
  show "mset (rev (sort_key f (rev xs))) = mset xs" by simp
next
  fix k
  have "filter (\<lambda>x. - f k = - f x) = filter (\<lambda>x. f k = f x)" by simp
  moreover have "filter (\<lambda>x. f k = f x) (rev (sort_key f (rev xs))) = filter (\<lambda>x. f k = f x) xs"
    using rev_sort_key_rev_stable[of f "f k" xs] by (simp add: eq_commute)
  ultimately show "filter (\<lambda>x. - f k = - f x) (rev (sort_key f (rev xs)))
      = filter (\<lambda>x. - f k = - f x) xs" by simp
next
  show "sorted (map (\<lambda>x. - f x) (rev (sort_key f (rev xs))))"
    using rev_sort_key_rev_sorted[of f xs] by (simp add: sorted_wrt_map)
qed

text \<open>Sorting commutes with a map that keeps the key.\<close>

lemma insort_key_map:
  "insort_key f (u x) (map u xs) = map u (insort_key (\<lambda>y. f (u y)) x xs)"
  by (induction xs) auto

lemma sort_key_map:
  "sort_key f (map u xs) = map u (sort_key (\<lambda>y. f (u y)) xs)"
  by (induction xs) (simp_all add: insort_key_map)

end
