(* ===== verification/V8Sort.thy ===== *)
theory V8Sort
  imports JsRuntime
begin

text \<open>
  The comparison sort that V8 runs for \<open>Array.prototype.sort\<close> on arrays of fewer than
  64 elements (third_party/v8/builtins/array-sort.tq; the pages sort a handful of
  projects and achievements). V8 copies the elements into a work array and, since the
  minimum run length of so short an array is its length, sorts it in two phases:
  \<open>CountAndMakeRun\<close> takes the longest prefix that is ascending (each element compared
  with its predecessor, order \<open>\<ge> 0\<close>) or strictly descending (order \<open>< 0\<close>) and reverses a
  descending one (\<open>count_and_make_run\<close>, \<open>run_ext\<close>); \<open>BinaryInsertionSort\<close> then inserts
  every further element by a binary search over the sorted part, comparing the pivot
  with the middle element and going left on a negative order (\<open>bin_pos\<close>,
  \<open>binary_insert\<close>, \<open>bin_insertion_sort\<close>). A comparator that throws aborts the sort.
  The results: the sort keeps its elements; it returns whenever no comparison against
  an element other than the last throws; for a comparator that orders by a key it is
  the reference insertion sort \<open>js_sort_ref\<close> and hence the stable descending sort; it
  commutes with an encoding; and which elements it compares is what decides whether a
  comparator that throws on some elements aborts it.
\<close>

subsection \<open>\<open>CountAndMakeRun\<close>\<close>

fun run_ext :: "'a comparator \<Rightarrow> bool \<Rightarrow> 'a \<Rightarrow> 'a list \<Rightarrow> ('a list \<times> 'a list) js_result" where
  "run_ext cmp desc prev [] = Inr ([], [])"
| "run_ext cmp desc prev (x # xs) =
     js_bind (cmp x prev) (\<lambda>order.
       if (if desc then 0 \<le> order else order < 0) then Inr ([], x # xs)
       else js_map (\<lambda>(r, rest). (x # r, rest)) (run_ext cmp desc x xs))"

definition count_and_make_run ::
  "'a comparator \<Rightarrow> 'a \<Rightarrow> 'a \<Rightarrow> 'a list \<Rightarrow> ('a list \<times> 'a list) js_result" where
  "count_and_make_run cmp a0 a1 rest =
     js_bind (cmp a1 a0) (\<lambda>order.
       js_map (\<lambda>(r, rest'). (if order < 0 then rev (a0 # a1 # r) else a0 # a1 # r, rest'))
         (run_ext cmp (order < 0) a1 rest))"

subsection \<open>\<open>BinaryInsertionSort\<close>\<close>

function bin_pos :: "'a comparator \<Rightarrow> 'a \<Rightarrow> 'a list \<Rightarrow> nat \<Rightarrow> nat \<Rightarrow> nat js_result" where
  "bin_pos cmp pivot s left right =
     (if left < right then
        (case cmp pivot (s ! (left + (right - left) div 2)) of
           Inl e \<Rightarrow> Inl e
         | Inr order \<Rightarrow>
             if order < 0 then bin_pos cmp pivot s left (left + (right - left) div 2)
             else bin_pos cmp pivot s (Suc (left + (right - left) div 2)) right)
      else Inr left)"
  by pat_completeness auto
termination
  by (relation "measure (\<lambda>(cmp, pivot, s, left, right). right - left)") auto

definition binary_insert :: "'a comparator \<Rightarrow> 'a \<Rightarrow> 'a list \<Rightarrow> 'a list js_result" where
  "binary_insert cmp pivot s =
     js_map (\<lambda>i. take i s @ pivot # drop i s) (bin_pos cmp pivot s 0 (length s))"

fun bin_insertion_sort :: "'a comparator \<Rightarrow> 'a list \<Rightarrow> 'a list \<Rightarrow> 'a list js_result" where
  "bin_insertion_sort cmp s [] = Inr s"
| "bin_insertion_sort cmp s (x # xs) =
     js_bind (binary_insert cmp x s) (\<lambda>s'. bin_insertion_sort cmp s' xs)"

subsection \<open>\<open>Array.prototype.sort\<close>\<close>

definition js_sort :: "'a comparator \<Rightarrow> 'a list \<Rightarrow> 'a list js_result" where
  "js_sort cmp xs =
     (case xs of
        a0 # a1 # rest \<Rightarrow>
          js_bind (count_and_make_run cmp a0 a1 rest) (\<lambda>(run, rest'). bin_insertion_sort cmp run rest')
      | _ \<Rightarrow> Inr xs)"

text \<open>
  A comparator that throws exactly when its second argument is \<open>bad\<close> (it reads a
  field the bad elements lack) and puts a bad element before every good one.
\<close>

definition throws_on :: "'a comparator \<Rightarrow> ('a \<Rightarrow> bool) \<Rightarrow> 'a set \<Rightarrow> bool" where
  "throws_on cmp bad A \<longleftrightarrow>
     (\<forall>x\<in>A. \<forall>y\<in>A. isl (cmp x y) = bad y) \<and>
     (\<forall>x\<in>A. \<forall>y\<in>A. bad x \<longrightarrow> \<not> bad y \<longrightarrow> (\<exists>c. cmp x y = Inr c \<and> c < 0))"

subsection \<open>Evaluation rules\<close>

declare bin_pos.simps [simp del]

lemma bin_pos_step [js_simps]:
  "left < right \<Longrightarrow> bin_pos cmp pivot s left right =
     (case cmp pivot (s ! (left + (right - left) div 2)) of
        Inl e \<Rightarrow> Inl e
      | Inr order \<Rightarrow>
          if order < 0 then bin_pos cmp pivot s left (left + (right - left) div 2)
          else bin_pos cmp pivot s (Suc (left + (right - left) div 2)) right)"
  by (simp add: bin_pos.simps)

lemma bin_pos_stop [simp, js_simps]: "\<not> left < right \<Longrightarrow> bin_pos cmp pivot s left right = Inr left"
  by (simp add: bin_pos.simps)

lemma js_sort_short [simp]: "js_sort cmp [] = Inr []" "js_sort cmp [a] = Inr [a]"
  by (simp_all add: js_sort_def)

lemma js_sort_Cons_Cons [js_simps]:
  "js_sort cmp (a0 # a1 # rest) =
     js_bind (count_and_make_run cmp a0 a1 rest) (\<lambda>(run, rest'). bin_insertion_sort cmp run rest')"
  by (simp add: js_sort_def)

lemmas v8_sort_simps = js_sort_Cons_Cons count_and_make_run_def binary_insert_def bin_pos_step

lemma js_sort_two_Inl:
  "cmp y x = Inl e \<Longrightarrow> js_sort cmp (x # y # zs) = Inl e"
  by (simp add: js_sort_Cons_Cons count_and_make_run_def)

subsection \<open>The sort keeps its elements\<close>

lemma bin_pos_ge_left: "bin_pos cmp p s l r = Inr i \<Longrightarrow> l \<le> i"
proof (induction cmp p s l r rule: bin_pos.induct)
  case (1 cmp p s l r)
  then show ?case
    by (cases "l < r") (auto simp: bin_pos_step split: sum.splits if_splits)
qed

lemma mset_take_drop [simp]: "mset (take i s) + mset (drop i s) = mset s"
  by (metis append_take_drop_id mset_append)

lemma set_take_drop [simp]: "set (take i s) \<union> set (drop i s) = set s"
  by (metis append_take_drop_id set_append)

lemma binary_insert_mset: "binary_insert cmp p s = Inr s' \<Longrightarrow> mset s' = add_mset p (mset s)"
proof -
  assume "binary_insert cmp p s = Inr s'"
  then obtain i where "s' = take i s @ p # drop i s"
    by (auto simp: binary_insert_def js_map_eq_Inr)
  then show ?thesis by simp
qed

lemma bin_insertion_sort_mset:
  "bin_insertion_sort cmp s xs = Inr zs \<Longrightarrow> mset zs = mset s + mset xs"
  by (induction cmp s xs arbitrary: zs rule: bin_insertion_sort.induct)
     (fastforce simp: js_bind_eq_Inr dest: binary_insert_mset)+

lemma run_ext_split: "run_ext cmp d prev xs = Inr (r, rest) \<Longrightarrow> xs = r @ rest"
  by (induction cmp d prev xs arbitrary: r rule: run_ext.induct)
     (auto simp: js_bind_eq_Inr js_map_eq_Inr split: if_splits)

lemma count_and_make_run_split:
  "count_and_make_run cmp a0 a1 rest = Inr (run, rest') \<Longrightarrow>
     \<exists>r. rest = r @ rest' \<and> mset run = mset (a0 # a1 # r)"
  by (auto simp: count_and_make_run_def js_bind_eq_Inr js_map_eq_Inr dest!: run_ext_split)

lemma js_sort_mset: "js_sort cmp xs = Inr ys \<Longrightarrow> mset ys = mset xs"
proof (cases xs rule: remdups_adj.cases)
  case (3 a0 a1 rest)
  assume "js_sort cmp xs = Inr ys"
  then obtain run rest' where run: "count_and_make_run cmp a0 a1 rest = Inr (run, rest')"
    and ins: "bin_insertion_sort cmp run rest' = Inr ys"
    by (auto simp: 3 js_sort_Cons_Cons js_bind_eq_Inr)
  from count_and_make_run_split[OF run] obtain r where "rest = r @ rest'" "mset run = mset (a0 # a1 # r)"
    by blast
  with bin_insertion_sort_mset[OF ins] show ?thesis by (simp add: 3)
qed auto

subsection \<open>Binary search finds the insertion point\<close>

text \<open>When the comparator is negative exactly on the elements from index \<open>n\<close> on (the sorted
  part splits into a prefix the pivot goes after and a suffix it goes before), the
  binary search returns \<open>n\<close>, and the linear insertion inserts at \<open>n\<close> as well.\<close>

lemma bin_pos_exact:
  "\<forall>i<length s. \<exists>c. cmp p (s ! i) = Inr c \<and> (c < 0 \<longleftrightarrow> n \<le> i) \<Longrightarrow>
     l \<le> n \<Longrightarrow> n \<le> r \<Longrightarrow> r \<le> length s \<Longrightarrow> bin_pos cmp p s l r = Inr n"
proof (induction cmp p s l r rule: bin_pos.induct)
  case (1 cmp p s l r)
  show ?case
  proof (cases "l < r")
    case False
    with "1.prems" show ?thesis by simp
  next
    case True
    define m where "m = l + (r - l) div 2"
    have m: "l \<le> m" "m < r" using True by (simp_all add: m_def)
    with "1.prems"(4) have "m < length s" by simp
    with "1.prems"(1) obtain c where c: "cmp p (s ! m) = Inr c" and ci: "c < 0 \<longleftrightarrow> n \<le> m"
      by blast
    show ?thesis
    proof (cases "n \<le> m")
      case True
      with "1.IH"(1)[OF \<open>l < r\<close> c[unfolded m_def]] "1.prems" c ci m
      show ?thesis by (simp add: bin_pos_step m_def)
    next
      case False
      with "1.IH"(2)[OF \<open>l < r\<close> c[unfolded m_def]] "1.prems" c ci m
      show ?thesis by (simp add: bin_pos_step m_def)
    qed
  qed
qed

lemma sort_insert_at:
  "\<forall>i<length s. \<exists>c. cmp p (s ! i) = Inr c \<and> (c < 0 \<longleftrightarrow> n \<le> i) \<Longrightarrow> n \<le> length s \<Longrightarrow>
     sort_insert cmp p s = Inr (take n s @ p # drop n s)"
proof (induction s arbitrary: n)
  case Nil
  then show ?case by simp
next
  case (Cons y ys)
  from Cons.prems(1) obtain c where c: "cmp p y = Inr c" and ci: "c < 0 \<longleftrightarrow> n = 0" by fastforce
  show ?case
  proof (cases n)
    case 0
    with c ci show ?thesis by simp
  next
    case (Suc k)
    have "\<forall>i<length ys. \<exists>c. cmp p (ys ! i) = Inr c \<and> (c < 0 \<longleftrightarrow> k \<le> i)"
      using Cons.prems(1) Suc by fastforce
    with Cons.IH[of k] Cons.prems(2) Suc c ci show ?thesis by simp
  qed
qed

lemma binary_insert_at:
  "\<forall>i<length s. \<exists>c. cmp p (s ! i) = Inr c \<and> (c < 0 \<longleftrightarrow> n \<le> i) \<Longrightarrow> n \<le> length s \<Longrightarrow>
     binary_insert cmp p s = Inr (take n s @ p # drop n s)"
  by (simp add: binary_insert_def bin_pos_exact)

lemma sort_insert_last:
  "\<forall>y\<in>set s. \<exists>c. cmp p y = Inr c \<and> 0 \<le> c \<Longrightarrow> sort_insert cmp p s = Inr (s @ [p])"
  by (induction s) fastforce+

lemma cmp_descending_byD:
  "cmp_descending_by cmp f A \<Longrightarrow> x \<in> A \<Longrightarrow> y \<in> A \<Longrightarrow>
     \<exists>c. cmp x y = Inr c \<and> (c < 0 \<longleftrightarrow> f y < f x)"
  unfolding cmp_descending_by_def by (fastforce split: sum.splits)

text \<open>On a list sorted descending by a key, the elements a pivot goes before are those
  of smaller key, and they form a suffix.\<close>

lemma descending_split:
  assumes "cmp_descending_by cmp f A" "p \<in> A" "set s \<subseteq> A" "sorted_wrt (\<lambda>a b. f b \<le> f a) s"
  shows "\<forall>i<length s. \<exists>c. cmp p (s ! i) = Inr c \<and>
           (c < 0 \<longleftrightarrow> length (takeWhile (\<lambda>y. \<not> f y < f p) s) \<le> i)"
proof (intro allI impI)
  fix i assume i: "i < length s"
  define n where "n = length (takeWhile (\<lambda>y. \<not> f y < f p) s)"
  from assms(3) i have "s ! i \<in> A" by (meson nth_mem subsetD)
  with assms(1,2) obtain c where c: "cmp p (s ! i) = Inr c" and ci: "c < 0 \<longleftrightarrow> f (s ! i) < f p"
    by (blast dest: cmp_descending_byD)
  have "f (s ! i) < f p \<longleftrightarrow> n \<le> i"
  proof (cases "i < n")
    case True
    then have "s ! i \<in> set (takeWhile (\<lambda>y. \<not> f y < f p) s)"
      unfolding n_def by (metis nth_mem takeWhile_nth)
    with True show ?thesis by (auto dest: set_takeWhileD)
  next
    case False
    then have n: "n < length s" using i by simp
    then have "f (s ! n) < f p" unfolding n_def using nth_length_takeWhile by fastforce
    moreover have "f (s ! i) \<le> f (s ! n)"
      using False assms(4) i by (cases "n = i") (auto simp: sorted_wrt_iff_nth_less)
    ultimately show ?thesis using False by simp
  qed
  with c ci show "\<exists>c. cmp p (s ! i) = Inr c \<and> (c < 0 \<longleftrightarrow> length (takeWhile (\<lambda>y. \<not> f y < f p) s) \<le> i)"
    unfolding n_def by blast
qed

lemma rev_sort_key_rev_sorted_wrt: "sorted_wrt (\<lambda>a b. f b \<le> f a) (rev (sort_key f (rev ys)))"
  using rev_sort_key_rev_sorted[of f ys] by (simp add: sorted_wrt_map)

lemma binary_insert_descending:
  assumes "cmp_descending_by cmp f A" "p \<in> A" "set ys \<subseteq> A"
  shows "binary_insert cmp p (rev (sort_key f (rev ys))) = sort_insert cmp p (rev (sort_key f (rev ys)))"
proof -
  define s where "s = rev (sort_key f (rev ys))"
  define n where "n = length (takeWhile (\<lambda>y. \<not> f y < f p) s)"
  have split: "\<forall>i<length s. \<exists>c. cmp p (s ! i) = Inr c \<and> (c < 0 \<longleftrightarrow> n \<le> i)"
    unfolding s_def n_def using assms by (intro descending_split rev_sort_key_rev_sorted_wrt) auto
  have n: "n \<le> length s" by (simp add: n_def length_takeWhile_le)
  show ?thesis
    unfolding s_def[symmetric]
    using binary_insert_at[where s = s and cmp = cmp and p = p and n = n, OF split n]
      sort_insert_at[where s = s and cmp = cmp and p = p and n = n, OF split n]
    by simp
qed

lemma bin_insertion_sort_descending:
  assumes "cmp_descending_by cmp f A" "set ys \<subseteq> A" "set xs \<subseteq> A"
  shows "bin_insertion_sort cmp (rev (sort_key f (rev ys))) xs = js_sort_acc cmp (rev (sort_key f (rev ys))) xs"
  using assms(2,3)
proof (induction xs arbitrary: ys)
  case Nil
  then show ?case by simp
next
  case (Cons x xs)
  have "sort_insert cmp x (rev (sort_key f (rev ys))) = Inr (rev (insort_key f x (sort_key f (rev ys))))"
    using Cons.prems by (intro sort_insert_rev_insort[OF assms(1)]) auto
  then have ins: "sort_insert cmp x (rev (sort_key f (rev ys))) = Inr (rev (sort_key f (rev (ys @ [x]))))"
    by simp
  have bin: "binary_insert cmp x (rev (sort_key f (rev ys))) = sort_insert cmp x (rev (sort_key f (rev ys)))"
    using Cons.prems by (intro binary_insert_descending[OF assms(1)]) auto
  have "bin_insertion_sort cmp (rev (sort_key f (rev (ys @ [x])))) xs
      = js_sort_acc cmp (rev (sort_key f (rev (ys @ [x])))) xs"
    using Cons.prems by (intro Cons.IH) auto
  then show ?case
    by (simp only: bin_insertion_sort.simps(2) js_sort_acc.simps(2) bin ins js_bind_simps)
qed

subsection \<open>The run phase is the reference insertion of the run\<close>

lemma run_ext_desc_ref:
  "run_ext cmp True prev xs = Inr (r, rest) \<Longrightarrow> js_sort_acc cmp (prev # acc) r = Inr (rev r @ prev # acc)"
proof (induction xs arbitrary: prev acc r)
  case Nil
  then show ?case by simp
next
  case (Cons x xs)
  from Cons.prems obtain c where c: "cmp x prev = Inr c"
    by (cases "cmp x prev") simp_all
  show ?case
  proof (cases "0 \<le> c")
    case True
    with Cons.prems c show ?thesis by simp
  next
    case False
    with Cons.prems c obtain r' where r: "r = x # r'" and rx: "run_ext cmp True x xs = Inr (r', rest)"
      by (auto simp: js_map_eq_Inr)
    from Cons.IH[OF rx, of "prev # acc"] False c show ?thesis by (simp add: r)
  qed
qed

lemma run_ext_asc_ref:
  assumes "cmp_descending_by cmp f A"
  shows "run_ext cmp False prev xs = Inr (r, rest) \<Longrightarrow> set (prev # xs) \<subseteq> A \<Longrightarrow> set acc \<subseteq> A \<Longrightarrow>
     \<forall>y\<in>set acc. f prev \<le> f y \<Longrightarrow> js_sort_acc cmp (acc @ [prev]) r = Inr (acc @ prev # r)"
proof (induction xs arbitrary: prev acc r)
  case Nil
  then show ?case by simp
next
  case (Cons x xs)
  from assms Cons.prems(2) obtain c where c: "cmp x prev = Inr c" and ci: "c < 0 \<longleftrightarrow> f prev < f x"
    by (meson cmp_descending_byD list.set_intros subsetD)
  show ?case
  proof (cases "c < 0")
    case True
    with Cons.prems c show ?thesis by simp
  next
    case False
    with Cons.prems c obtain r' where r: "r = x # r'" and rx: "run_ext cmp False x xs = Inr (r', rest)"
      by (auto simp: js_map_eq_Inr)
    have below: "\<forall>y\<in>set (acc @ [prev]). f x \<le> f y"
      using Cons.prems(4) False ci by fastforce
    have "\<forall>y\<in>set (acc @ [prev]). \<exists>c. cmp x y = Inr c \<and> 0 \<le> c"
    proof
      fix y assume y: "y \<in> set (acc @ [prev])"
      with Cons.prems(2,3) have "y \<in> A" "x \<in> A" by auto
      with assms obtain c where "cmp x y = Inr c" "c < 0 \<longleftrightarrow> f y < f x"
        by (blast dest: cmp_descending_byD)
      with below y show "\<exists>c. cmp x y = Inr c \<and> 0 \<le> c" by force
    qed
    then have ins: "sort_insert cmp x (acc @ [prev]) = Inr ((acc @ [prev]) @ [x])"
      by (rule sort_insert_last)
    have "js_sort_acc cmp ((acc @ [prev]) @ [x]) r' = Inr ((acc @ [prev]) @ x # r')"
      using Cons.prems(2,3) below by (intro Cons.IH[OF rx]) auto
    with ins show ?thesis by (simp add: r)
  qed
qed

lemma count_and_make_run_ref:
  assumes "cmp_descending_by cmp f A" "set (a0 # a1 # rest) \<subseteq> A"
    and "count_and_make_run cmp a0 a1 rest = Inr (run, rest')"
  shows "\<exists>r. rest = r @ rest' \<and> js_sort_acc cmp [] (a0 # a1 # r) = Inr run"
proof -
  from assms(1,2) obtain c where c: "cmp a1 a0 = Inr c" and ci: "c < 0 \<longleftrightarrow> f a0 < f a1"
    by (meson cmp_descending_byD list.set_intros subsetD)
  from assms(3) c obtain r where rx: "run_ext cmp (c < 0) a1 rest = Inr (r, rest')"
    and run: "run = (if c < 0 then rev (a0 # a1 # r) else a0 # a1 # r)"
    by (auto simp: count_and_make_run_def js_map_eq_Inr)
  have "js_sort_acc cmp [] (a0 # a1 # r) = Inr run"
  proof (cases "c < 0")
    case True
    with rx have "js_sort_acc cmp [a1, a0] r = Inr (rev r @ [a1, a0])"
      using run_ext_desc_ref[of cmp a1 rest r rest' "[a0]"] by simp
    with True c run show ?thesis by simp
  next
    case False
    with rx assms(2) ci have "js_sort_acc cmp ([a0] @ [a1]) r = Inr ([a0] @ a1 # r)"
      by (intro run_ext_asc_ref[OF assms(1)]) auto
    with False c run show ?thesis by simp
  qed
  with run_ext_split[OF rx] show ?thesis by blast
qed

subsection \<open>The sort returns unless a comparison throws\<close>

text \<open>Every comparison the sort makes is of an element against one that comes before it
  in the input (its predecessor in the run, or an element of the sorted part). So if no
  such comparison throws, the sort returns.\<close>

lemma bin_pos_total:
  "\<forall>y\<in>set s. \<not> isl (cmp p y) \<Longrightarrow> r \<le> length s \<Longrightarrow> \<exists>i. bin_pos cmp p s l r = Inr i"
proof (induction cmp p s l r rule: bin_pos.induct)
  case (1 cmp p s l r)
  show ?case
  proof (cases "l < r")
    case True
    then have "l + (r - l) div 2 < length s" using "1.prems"(2) by linarith
    with "1.prems"(1) obtain c where c: "cmp p (s ! (l + (r - l) div 2)) = Inr c"
      by (metis isl_def nth_mem sum.collapse(2))
    with "1.IH"[OF True c] "1.prems" True show ?thesis by (simp add: bin_pos_step)
  qed simp
qed

lemma bin_insertion_sort_total:
  "\<forall>j<length xs. \<forall>y\<in>set s \<union> set (take j xs). \<not> isl (cmp (xs ! j) y) \<Longrightarrow>
     \<exists>zs. bin_insertion_sort cmp s xs = Inr zs"
proof (induction xs arbitrary: s)
  case Nil
  then show ?case by simp
next
  case (Cons x xs)
  from Cons.prems[rule_format, of 0] obtain i where i: "bin_pos cmp x s 0 (length s) = Inr i"
    using bin_pos_total[of s cmp x "length s" 0] by auto
  have "\<forall>j<length xs. \<forall>y\<in>set (take i s @ x # drop i s) \<union> set (take j xs). \<not> isl (cmp (xs ! j) y)"
    using Cons.prems[rule_format, of "Suc _"] by auto
  from Cons.IH[OF this] i show ?case by (simp add: binary_insert_def)
qed

lemma run_ext_total:
  "\<forall>j<length xs. \<forall>y\<in>set (prev # take j xs). \<not> isl (cmp (xs ! j) y) \<Longrightarrow>
     \<exists>r rest. run_ext cmp d prev xs = Inr (r, rest)"
proof (induction xs arbitrary: prev)
  case Nil
  then show ?case by simp
next
  case (Cons x xs)
  from Cons.prems[rule_format, of 0] obtain c where c: "cmp x prev = Inr c"
    by (cases "cmp x prev") auto
  have "\<forall>j<length xs. \<forall>y\<in>set (x # take j xs). \<not> isl (cmp (xs ! j) y)"
    using Cons.prems[rule_format, of "Suc _"] by auto
  from Cons.IH[OF this] c show ?case by auto
qed

lemma js_sort_total:
  "\<forall>j<length xs. \<forall>y\<in>set (take j xs). \<not> isl (cmp (xs ! j) y) \<Longrightarrow> \<exists>ys. js_sort cmp xs = Inr ys"
proof (cases xs rule: remdups_adj.cases)
  case (3 a0 a1 rest)
  assume ok: "\<forall>j<length xs. \<forall>y\<in>set (take j xs). \<not> isl (cmp (xs ! j) y)"
  from ok[rule_format, of 1] obtain c where c: "cmp a1 a0 = Inr c"
    by (cases "cmp a1 a0") (auto simp: 3)
  have "\<forall>j<length rest. \<forall>y\<in>set (a1 # take j rest). \<not> isl (cmp (rest ! j) y)"
    using ok[rule_format, of "Suc (Suc _)"] by (auto simp: 3)
  from run_ext_total[OF this] obtain r rest' where rx: "run_ext cmp (c < 0) a1 rest = Inr (r, rest')"
    by blast
  define run where "run = (if c < 0 then rev (a0 # a1 # r) else a0 # a1 # r)"
  have cm: "count_and_make_run cmp a0 a1 rest = Inr (run, rest')"
    by (simp add: count_and_make_run_def c rx run_def)
  have rest: "rest = r @ rest'" by (rule run_ext_split[OF rx])
  have "\<forall>j<length rest'. \<forall>y\<in>set run \<union> set (take j rest'). \<not> isl (cmp (rest' ! j) y)"
  proof (intro allI impI ballI)
    fix j y assume j: "j < length rest'" and y: "y \<in> set run \<union> set (take j rest')"
    have "xs ! (Suc (Suc (length r + j))) = rest' ! j" by (simp add: 3 rest nth_append)
    moreover have "set (take (Suc (Suc (length r + j))) xs) = set run \<union> set (take j rest')"
      by (auto simp: 3 rest run_def)
    ultimately show "\<not> isl (cmp (rest' ! j) y)"
      using ok[rule_format, of "Suc (Suc (length r + j))"] j y by (simp add: 3 rest)
  qed
  from bin_insertion_sort_total[OF this] cm show ?thesis by (auto simp: 3 js_sort_Cons_Cons)
qed auto

subsection \<open>With a key comparator, the engine's sort is the reference sort\<close>

lemma descending_total:
  "cmp_descending_by cmp f (set xs) \<Longrightarrow> \<forall>j<length xs. \<forall>y\<in>set (take j xs). \<not> isl (cmp (xs ! j) y)"
  by (metis (no_types, lifting) cmp_descending_byD in_set_takeD isl_def nth_mem sum.disc(2))

lemma js_sort_eq_ref:
  assumes "cmp_descending_by cmp f (set xs)"
  shows "js_sort cmp xs = js_sort_ref cmp xs"
proof (cases xs rule: remdups_adj.cases)
  case (3 a0 a1 rest)
  from js_sort_total[OF descending_total[OF assms]] obtain ys where ys: "js_sort cmp xs = Inr ys"
    by blast
  then obtain run rest' where cm: "count_and_make_run cmp a0 a1 rest = Inr (run, rest')"
    and ins: "bin_insertion_sort cmp run rest' = Inr ys"
    by (auto simp: 3 js_sort_Cons_Cons js_bind_eq_Inr)
  from count_and_make_run_ref[OF assms _ cm] obtain r where rest: "rest = r @ rest'"
    and ref: "js_sort_acc cmp [] (a0 # a1 # r) = Inr run"
    by (auto simp: 3)
  have "cmp_descending_by cmp f (set (a0 # a1 # r))"
    using assms by (auto simp: cmp_descending_by_def 3 rest)
  from js_sort_ref_descending[OF this] ref have run: "run = rev (sort_key f (rev (a0 # a1 # r)))"
    by (simp add: js_sort_ref_def)
  have "bin_insertion_sort cmp run rest' = js_sort_acc cmp run rest'"
    unfolding run by (rule bin_insertion_sort_descending[where A = "set xs", OF assms]) (auto simp: 3 rest)
  moreover have "js_sort_ref cmp xs = js_sort_acc cmp run rest'"
    using js_sort_acc_append[of cmp "[]" "a0 # a1 # r" rest'] ref by (simp add: js_sort_ref_def 3 rest)
  ultimately show ?thesis using ys ins by simp
qed (simp_all add: js_sort_ref_def)

theorem js_sort_descending:
  assumes "cmp_descending_by cmp f (set xs)"
  shows "js_sort cmp xs = Inr (rev (sort_key f (rev xs)))"
  using js_sort_eq_ref[OF assms] js_sort_ref_descending[OF assms] by simp

subsection \<open>Sorting an encoding\<close>

lemma bin_pos_map:
  "(\<And>a b. cmp' (f a) (f b) = cmp a b) \<Longrightarrow> r \<le> length s \<Longrightarrow>
     bin_pos cmp' (f p) (map f s) l r = bin_pos cmp p s l r"
proof (induction cmp p s l r rule: bin_pos.induct)
  case (1 cmp p s l r)
  show ?case
  proof (cases "l < r")
    case True
    then have m: "l + (r - l) div 2 < length s" using "1.prems"(2) by linarith
    show ?thesis
      using "1.IH"[OF True] "1.prems" True m
      by (cases "cmp p (s ! (l + (r - l) div 2))") (simp_all add: bin_pos_step)
  qed simp
qed

lemma binary_insert_map:
  "(\<And>a b. cmp' (f a) (f b) = cmp a b) \<Longrightarrow>
     binary_insert cmp' (f p) (map f s) = js_map (map f) (binary_insert cmp p s)"
  by (cases "bin_pos cmp p s 0 (length s)") (simp_all add: binary_insert_def bin_pos_map take_map drop_map)

lemma bin_insertion_sort_map:
  "(\<And>a b. cmp' (f a) (f b) = cmp a b) \<Longrightarrow>
     bin_insertion_sort cmp' (map f s) (map f xs) = js_map (map f) (bin_insertion_sort cmp s xs)"
proof (induction xs arbitrary: s)
  case (Cons x xs)
  then show ?case
    by (cases "binary_insert cmp x s") (simp_all add: binary_insert_map[of cmp' f cmp, OF Cons.prems])
qed simp

lemma run_ext_map:
  "(\<And>a b. cmp' (f a) (f b) = cmp a b) \<Longrightarrow>
     run_ext cmp' d (f prev) (map f xs) = js_map (\<lambda>(r, rest). (map f r, map f rest)) (run_ext cmp d prev xs)"
proof (induction xs arbitrary: prev)
  case (Cons x xs)
  then show ?case
    by (cases "cmp x prev"; cases "run_ext cmp d x xs") auto
qed simp

lemma count_and_make_run_map:
  "(\<And>a b. cmp' (f a) (f b) = cmp a b) \<Longrightarrow>
     count_and_make_run cmp' (f a0) (f a1) (map f rest) =
       js_map (\<lambda>(run, rest'). (map f run, map f rest')) (count_and_make_run cmp a0 a1 rest)"
proof (cases "cmp a1 a0")
  case (Inr c)
  assume agree: "\<And>a b. cmp' (f a) (f b) = cmp a b"
  with Inr show ?thesis
    using run_ext_map[of cmp' f cmp "c < 0" a1 rest, OF agree]
    by (cases "run_ext cmp (c < 0) a1 rest") (auto simp: count_and_make_run_def rev_map)
qed (simp add: count_and_make_run_def)

lemma js_sort_map:
  "(\<And>a b. cmp' (f a) (f b) = cmp a b) \<Longrightarrow> js_sort cmp' (map f xs) = js_map (map f) (js_sort cmp xs)"
proof (cases xs rule: remdups_adj.cases)
  case (3 a0 a1 rest)
  assume agree: "\<And>a b. cmp' (f a) (f b) = cmp a b"
  show ?thesis
    using count_and_make_run_map[of cmp' f cmp a0 a1 rest, OF agree]
      bin_insertion_sort_map[of cmp' f cmp, OF agree]
    by (cases "count_and_make_run cmp a0 a1 rest") (auto simp: 3 js_sort_Cons_Cons)
qed simp_all

subsection \<open>A comparator that throws on some elements\<close>

text \<open>Which comparisons the sort makes decides whether it throws. The binary search only
  moves right past an element it compared without a negative order, and it only ends at
  the left end of the sorted part after comparing the pivot with the first element.\<close>

lemma bin_pos_no_right:
  "\<forall>i<r. isl (cmp p (s ! i)) \<or> (\<exists>c. cmp p (s ! i) = Inr c \<and> c < 0) \<Longrightarrow>
     bin_pos cmp p s l r = Inr pos \<Longrightarrow> pos = l"
proof (induction cmp p s l r rule: bin_pos.induct)
  case (1 cmp p s l r)
  show ?case
  proof (cases "l < r")
    case True
    then have "l + (r - l) div 2 < r" by linarith
    with "1.prems" "1.IH"[OF True] True show ?thesis
      by (auto simp: bin_pos_step isl_def split: sum.splits if_splits)
  qed (use "1.prems" in simp)
qed

lemma bin_pos_at_left:
  "bin_pos cmp p s l r = Inr l \<Longrightarrow> l < r \<Longrightarrow> \<not> isl (cmp p (s ! l))"
proof (induction cmp p s l r rule: bin_pos.induct)
  case (1 cmp p s l r)
  define m where "m = l + (r - l) div 2"
  have m: "l \<le> m" "m < r" using "1.prems"(2) by (simp_all add: m_def)
  show ?case
  proof (cases "cmp p (s ! m)")
    case (Inl e)
    with "1.prems" show ?thesis by (simp add: bin_pos_step m_def[symmetric])
  next
    case (Inr c)
    show ?thesis
    proof (cases "c < 0")
      case True
      with Inr "1.prems" have rec: "bin_pos cmp p s l m = Inr l" by (simp add: bin_pos_step m_def[symmetric])
      show ?thesis
      proof (cases "l < m")
        case True
        with "1.IH"(1)[OF \<open>l < r\<close> Inr[unfolded m_def]] \<open>c < 0\<close> rec show ?thesis
          by (simp add: m_def)
      qed (use Inr m in auto)
    next
      case False
      with Inr "1.prems" have "bin_pos cmp p s (Suc m) r = Inr l" by (simp add: bin_pos_step m_def[symmetric])
      with bin_pos_ge_left m show ?thesis by fastforce
    qed
  qed
qed

text \<open>Invariant of the sorted part: a bad element can only be its first.\<close>

lemma binary_insert_bad_first:
  assumes "throws_on cmp bad A" "insert x (set S) \<subseteq> A" "\<forall>y\<in>set (tl S). \<not> bad y"
    and "binary_insert cmp x S = Inr S'"
  shows "\<forall>y\<in>set (tl S'). \<not> bad y"
proof -
  from assms(4) obtain pos where pos: "bin_pos cmp x S 0 (length S) = Inr pos"
    and S': "S' = take pos S @ x # drop pos S"
    by (auto simp: binary_insert_def js_map_eq_Inr)
  have isl_iff: "\<And>y. y \<in> set S \<Longrightarrow> isl (cmp x y) = bad y"
    and left: "\<And>y. y \<in> set S \<Longrightarrow> bad x \<Longrightarrow> \<not> bad y \<Longrightarrow> \<exists>c. cmp x y = Inr c \<and> c < 0"
    using assms(1,2) unfolding throws_on_def by blast+
  have bad_pos0: "pos = 0" if "bad x"
    using bin_pos_no_right[OF _ pos] isl_iff left that by (meson nth_mem)
  show ?thesis
  proof (cases S)
    case Nil
    with S' show ?thesis by simp
  next
    case (Cons y0 S0)
    show ?thesis
    proof (cases "bad y0")
      case True
      then have "isl (cmp x (S ! 0))" using isl_iff Cons by simp
      with bin_pos_at_left[of cmp x S 0 "length S"] pos Cons have "pos \<noteq> 0" by auto
      then obtain k where k: "pos = Suc k" by (cases pos) auto
      with bad_pos0 \<open>pos \<noteq> 0\<close> have "\<not> bad x" by blast
      with assms(3) S' k Cons show ?thesis by simp
    next
      case False
      with assms(3) Cons have good: "\<forall>y\<in>set S. \<not> bad y" by simp
      show ?thesis
      proof (cases "bad x")
        case True
        with bad_pos0 S' good show ?thesis by simp
      next
        case False
        with good S' have "\<forall>y\<in>set S'. \<not> bad y" by auto
        then show ?thesis by (cases S') auto
      qed
    qed
  qed
qed

lemma tl_rev: "tl (rev xs) = rev (butlast xs)"
  by (metis butlast_rev rev_rev_ident)

lemma bin_insertion_sort_bad_first:
  "bin_insertion_sort cmp S xs = Inr zs \<Longrightarrow> throws_on cmp bad A \<Longrightarrow> set S \<union> set xs \<subseteq> A \<Longrightarrow>
     \<forall>y\<in>set (tl S). \<not> bad y \<Longrightarrow> \<forall>y\<in>set (tl zs). \<not> bad y"
proof (induction xs arbitrary: S)
  case (Cons x xs)
  then obtain S' where ins: "binary_insert cmp x S = Inr S'" and rest: "bin_insertion_sort cmp S' xs = Inr zs"
    by (auto simp: js_bind_eq_Inr)
  have "\<forall>y\<in>set (tl S'). \<not> bad y"
    using Cons.prems by (intro binary_insert_bad_first[OF _ _ _ ins]) auto
  moreover have "set S' = insert x (set S)"
    using arg_cong[OF binary_insert_mset[OF ins], of set_mset] by simp
  then have "set S' \<union> set xs \<subseteq> A" using Cons.prems(3) by auto
  ultimately show ?case using Cons.IH[OF rest Cons.prems(2)] by blast
qed simp

text \<open>In the run, every element but the last has been compared as a predecessor, so it
  is good; an ascending run whose last element is bad is impossible, as the bad element
  compares below its predecessor and would have ended the run.\<close>

lemma run_ext_good_butlast:
  "run_ext cmp d prev xs = Inr (r, rest) \<Longrightarrow> throws_on cmp bad A \<Longrightarrow> set (prev # xs) \<subseteq> A \<Longrightarrow>
     \<forall>y\<in>set (butlast (prev # r)). \<not> bad y"
proof (induction xs arbitrary: prev r)
  case (Cons x xs)
  from Cons.prems(1) obtain c where c: "cmp x prev = Inr c" by (cases "cmp x prev") auto
  with Cons.prems(2,3) have "\<not> bad prev" unfolding throws_on_def by force
  with Cons c show ?case
    by (auto simp: js_map_eq_Inr split: if_splits)
qed simp

lemma run_ext_asc_last:
  "run_ext cmp False prev xs = Inr (r1 @ [u], rest) \<Longrightarrow> \<exists>c. cmp u (last (prev # r1)) = Inr c \<and> 0 \<le> c"
proof (induction xs arbitrary: prev r1)
  case (Cons x xs)
  from Cons.prems obtain c where c: "cmp x prev = Inr c" by (cases "cmp x prev") auto
  with Cons.prems obtain r' where c0: "\<not> c < 0" and r: "x # r' = r1 @ [u]"
    and rx: "run_ext cmp False x xs = Inr (r', rest)"
    by (auto simp: js_map_eq_Inr split: if_splits)
  show ?case
  proof (cases r1)
    case Nil
    with r c c0 show ?thesis by simp
  next
    case (Cons y r1')
    with r rx Cons.IH[of x r1'] show ?thesis by simp
  qed
qed simp

lemma count_and_make_run_bad_first:
  assumes "throws_on cmp bad A" "set (a0 # a1 # rest) \<subseteq> A"
    and "count_and_make_run cmp a0 a1 rest = Inr (run, rest')"
  shows "\<forall>y\<in>set (tl run). \<not> bad y"
proof -
  from assms(3) obtain c where c: "cmp a1 a0 = Inr c"
    by (cases "cmp a1 a0") (auto simp: count_and_make_run_def)
  with assms(3) obtain r where rx: "run_ext cmp (c < 0) a1 rest = Inr (r, rest')"
    and run: "run = (if c < 0 then rev (a0 # a1 # r) else a0 # a1 # r)"
    by (auto simp: count_and_make_run_def js_map_eq_Inr)
  have inA: "set (a0 # a1 # r) \<subseteq> A" using assms(2) run_ext_split[OF rx] by auto
  have a0: "\<not> bad a0" using assms(1,2) c unfolding throws_on_def by force
  have butlast: "\<forall>y\<in>set (butlast (a1 # r)). \<not> bad y"
    using run_ext_good_butlast[OF rx assms(1)] assms(2) by auto
  show ?thesis
  proof (cases "c < 0")
    case True
    have "tl run = rev (butlast (a0 # a1 # r))"
      using True run by (simp only: if_True tl_rev)
    moreover have "set (butlast (a0 # a1 # r)) = insert a0 (set (butlast (a1 # r)))"
      by (simp only: butlast.simps list.simps(3) if_False list.set(2))
    ultimately show ?thesis using a0 butlast by (simp only: set_rev) blast
  next
    case False
    have "\<not> bad (last (a1 # r))"
    proof (cases r rule: rev_cases)
      case Nil
      show ?thesis
      proof
        assume "bad (last (a1 # r))"
        then have "bad a1" using Nil by simp
        with a0 assms(1,2) obtain c' where "cmp a1 a0 = Inr c'" "c' < 0"
          unfolding throws_on_def by force
        with c False show False by simp
      qed
    next
      case (snoc r1 u)
      from rx False snoc obtain c' where c': "cmp u (last (a1 # r1)) = Inr c'" "0 \<le> c'"
        using run_ext_asc_last[of cmp a1 rest r1 u rest'] by auto
      have "last (a1 # r1) \<in> set (butlast (a1 # r))" using snoc by simp
      with butlast have "\<not> bad (last (a1 # r1))" by blast
      moreover have "u \<in> A" "last (a1 # r1) \<in> A" using inA snoc by auto
      ultimately show ?thesis using c' assms(1) snoc unfolding throws_on_def by force
    qed
    then have "\<forall>y\<in>set (a1 # r). \<not> bad y"
      using butlast by (metis append_butlast_last_id list.distinct(1) rotate1.simps(2) set_rotate1 insert_iff
          list.set(2) set_append Un_iff)
    with False run show ?thesis by simp
  qed
qed

theorem js_sort_bad_first:
  assumes "throws_on cmp bad (set xs)" "js_sort cmp xs = Inr zs"
  shows "\<forall>y\<in>set (tl zs). \<not> bad y"
proof (cases xs rule: remdups_adj.cases)
  case (3 a0 a1 rest)
  from assms(2) obtain run rest' where cm: "count_and_make_run cmp a0 a1 rest = Inr (run, rest')"
    and ins: "bin_insertion_sort cmp run rest' = Inr zs"
    by (auto simp: 3 js_sort_Cons_Cons js_bind_eq_Inr)
  from count_and_make_run_split[OF cm] obtain r where rest: "rest = r @ rest'"
    and m: "mset run = mset (a0 # a1 # r)" by blast
  have "set run \<union> set rest' \<subseteq> set xs"
    using arg_cong[OF m, of set_mset] by (auto simp: 3 rest)
  with bin_insertion_sort_bad_first[OF ins assms(1)] count_and_make_run_bad_first[OF assms(1) _ cm]
  show ?thesis by (simp add: 3)
qed (use assms(2) in auto)

lemma only_first_bad_count: "\<forall>y\<in>set (tl zs). \<not> bad y \<Longrightarrow> length (filter bad zs) \<le> 1"
  by (cases zs) simp_all

lemma js_sort_two_bad:
  assumes "throws_on cmp bad (set xs)" "2 \<le> length (filter bad xs)"
  shows "\<exists>e. js_sort cmp xs = Inl e"
proof (cases "js_sort cmp xs")
  case (Inr zs)
  have "length (filter bad zs) = length (filter bad xs)"
    using js_sort_mset[OF Inr] by (metis mset_filter size_mset)
  with only_first_bad_count[OF js_sort_bad_first[OF assms(1) Inr]] assms(2) show ?thesis by simp
qed simp

lemma js_sort_bad_only_last:
  assumes "throws_on cmp bad (set xs)" "\<forall>y\<in>set (butlast xs). \<not> bad y"
  shows "\<exists>zs. js_sort cmp xs = Inr zs \<and> mset zs = mset xs \<and> (\<forall>y\<in>set (tl zs). \<not> bad y)"
proof -
  have "\<forall>j<length xs. \<forall>y\<in>set (take j xs). \<not> isl (cmp (xs ! j) y)"
  proof (intro allI impI ballI)
    fix j y assume j: "j < length xs" and y: "y \<in> set (take j xs)"
    then have "y \<in> set (butlast xs)" by (metis take_butlast in_set_takeD)
    with assms j show "\<not> isl (cmp (xs ! j) y)"
      unfolding throws_on_def by (meson in_set_butlastD nth_mem)
  qed
  from js_sort_total[OF this] obtain zs where "js_sort cmp xs = Inr zs" by blast
  with js_sort_mset js_sort_bad_first[OF assms(1)] show ?thesis by blast
qed

text \<open>Every error of the sort is an error the comparator threw.\<close>

lemma js_map_eq_Inl: "js_map f r = Inl e \<longleftrightarrow> r = Inl e"
  by (cases r) simp_all

lemma bin_pos_Inl: "bin_pos cmp p s l r = Inl e \<Longrightarrow> \<exists>y. cmp p y = Inl e"
proof (induction cmp p s l r rule: bin_pos.induct)
  case (1 cmp p s l r)
  then show ?case
    by (cases "l < r") (auto simp: bin_pos_step split: sum.splits if_splits)
qed

lemma bin_insertion_sort_Inl: "bin_insertion_sort cmp s xs = Inl e \<Longrightarrow> \<exists>x y. cmp x y = Inl e"
proof (induction xs arbitrary: s)
  case (Cons x xs)
  then show ?case
    by (cases "bin_pos cmp x s 0 (length s)") (auto simp: binary_insert_def dest!: bin_pos_Inl)
qed simp

lemma run_ext_Inl: "run_ext cmp d prev xs = Inl e \<Longrightarrow> \<exists>x y. cmp x y = Inl e"
proof (induction xs arbitrary: prev)
  case (Cons x xs)
  then show ?case
    by (cases "cmp x prev"; cases "run_ext cmp d x xs") (auto split: if_splits)
qed simp

lemma js_sort_Inl: "js_sort cmp xs = Inl e \<Longrightarrow> \<exists>x y. cmp x y = Inl e"
proof (cases xs rule: remdups_adj.cases)
  case (3 a0 a1 rest)
  assume err: "js_sort cmp xs = Inl e"
  show ?thesis
  proof (cases "count_and_make_run cmp a0 a1 rest")
    case (Inl e')
    with err have "e' = e" by (simp add: 3 js_sort_Cons_Cons)
    with Inl show ?thesis
      by (cases "cmp a1 a0") (auto simp: count_and_make_run_def js_map_eq_Inl dest!: run_ext_Inl)
  next
    case (Inr rr)
    with err show ?thesis
      by (cases rr) (auto simp: 3 js_sort_Cons_Cons dest: bin_insertion_sort_Inl)
  qed
qed simp_all

subsection \<open>Exactly one bad element\<close>

text \<open>Facts about the run phase on content split at a given point: a run that stops
  inside a prefix is the run of that prefix, and the sort of the whole is then the sort
  of the prefix continued by the binary insertion of the rest.\<close>

lemma run_ext_Nil_rest: "run_ext cmp d prev xs = Inr (r, []) \<Longrightarrow> r = xs"
  using run_ext_split by fastforce

lemma run_ext_append_stop:
  "run_ext cmp d prev xs = Inr (r, x # rest) \<Longrightarrow> run_ext cmp d prev (xs @ ys) = Inr (r, x # rest @ ys)"
proof (induction xs arbitrary: prev r)
  case (Cons y xs)
  then show ?case
    by (cases "cmp y prev") (auto simp: js_map_eq_Inr split: if_splits)
qed simp

lemma run_ext_append_all:
  "run_ext cmp d prev xs = Inr (xs, []) \<Longrightarrow>
     run_ext cmp d prev (xs @ ys) = js_map (\<lambda>(r', rest'). (xs @ r', rest')) (run_ext cmp d (last (prev # xs)) ys)"
proof (induction xs arbitrary: prev)
  case Nil
  then show ?case by (cases "run_ext cmp d prev ys") auto
next
  case (Cons y xs)
  then obtain c where c: "cmp y prev = Inr c" by (cases "cmp y prev") auto
  with Cons.prems have go: "\<not> (if d then 0 \<le> c else c < 0)" and rx: "run_ext cmp d y xs = Inr (xs, [])"
    by (auto simp: js_map_eq_Inr split: if_splits)
  show ?case
    using Cons.IH[OF rx] c go by (cases "run_ext cmp d (last (y # xs)) ys") auto
qed

lemma run_ext_desc_sorted:
  assumes "cmp_descending_by cmp f A"
  shows "set (prev # xs) \<subseteq> A \<Longrightarrow> run_ext cmp True prev xs = Inr (xs, []) \<longleftrightarrow>
     sorted_wrt (\<lambda>a b. f a < f b) (prev # xs)"
proof (induction xs arbitrary: prev)
  case (Cons x xs)
  from assms Cons.prems obtain c where c: "cmp x prev = Inr c" and ci: "c < 0 \<longleftrightarrow> f prev < f x"
    by (meson cmp_descending_byD list.set_intros subsetD)
  have trans: "sorted_wrt (\<lambda>a b. f a < f b) (prev # x # xs) \<longleftrightarrow>
      f prev < f x \<and> sorted_wrt (\<lambda>a b. f a < f b) (x # xs)"
    by (auto intro: order.strict_trans)
  show ?case
  proof (cases "c < 0")
    case True
    have "run_ext cmp True prev (x # xs) = js_map (\<lambda>(r, rest). (x # r, rest)) (run_ext cmp True x xs)"
      using c True by simp
    moreover have "run_ext cmp True x xs = Inr (xs, []) \<longleftrightarrow> sorted_wrt (\<lambda>a b. f a < f b) (x # xs)"
      using Cons by auto
    ultimately show ?thesis
      using True ci trans by (cases "run_ext cmp True x xs") auto
  next
    case False
    with c ci trans show ?thesis by simp
  qed
qed simp

lemma bin_insertion_sort_append:
  "bin_insertion_sort cmp s (xs @ ys) = js_bind (bin_insertion_sort cmp s xs) (\<lambda>s'. bin_insertion_sort cmp s' ys)"
  by (induction xs arbitrary: s) (simp_all add: js_bind_def split: sum.split)

lemma js_sort_split_run:
  assumes "count_and_make_run cmp a0 a1 rest = Inr (run, rest')"
    and "count_and_make_run cmp a0 a1 (rest @ ys) = Inr (run, rest' @ ys)"
  shows "js_sort cmp (a0 # a1 # rest @ ys) = js_bind (js_sort cmp (a0 # a1 # rest)) (\<lambda>S. bin_insertion_sort cmp S ys)"
  using assms by (simp add: js_sort_Cons_Cons bin_insertion_sort_append)

text \<open>A bad element at the front of a sorted part: a later good pivot throws exactly when
  its key is above every key of the sorted part, since the binary search then goes left
  down to the front; otherwise it never looks at the front and inserts the pivot where
  the reference sort does.\<close>

lemma bin_pos_exact_skip0:
  "\<forall>i<length s. 0 < i \<longrightarrow> (\<exists>c. cmp p (s ! i) = Inr c \<and> (c < 0 \<longleftrightarrow> n \<le> i)) \<Longrightarrow> 2 \<le> n \<Longrightarrow>
     l \<le> n \<Longrightarrow> n \<le> r \<Longrightarrow> r \<le> length s \<Longrightarrow> bin_pos cmp p s l r = Inr n"
proof (induction cmp p s l r rule: bin_pos.induct)
  case (1 cmp p s l r)
  show ?case
  proof (cases "l < r")
    case False
    with "1.prems" show ?thesis by simp
  next
    case True
    define m where "m = l + (r - l) div 2"
    have m: "l \<le> m" "m < r" "0 < m" using True "1.prems"(2,4) by (simp_all add: m_def) linarith
    with "1.prems"(5) have "m < length s" by simp
    with "1.prems"(1) m obtain c where c: "cmp p (s ! m) = Inr c" and ci: "c < 0 \<longleftrightarrow> n \<le> m"
      by blast
    show ?thesis
    proof (cases "n \<le> m")
      case True
      with "1.IH"(1)[OF \<open>l < r\<close> c[unfolded m_def]] "1.prems" c ci m
      show ?thesis by (simp add: bin_pos_step m_def)
    next
      case False
      with "1.IH"(2)[OF \<open>l < r\<close> c[unfolded m_def]] "1.prems" c ci m
      show ?thesis by (simp add: bin_pos_step m_def)
    qed
  qed
qed

lemma sort_insert_descending:
  assumes "cmp_descending_by cmp f A" "p \<in> A" "set ys \<subseteq> A"
  shows "sort_insert cmp p (rev (sort_key f (rev ys))) = Inr (rev (sort_key f (rev (ys @ [p]))))"
  using sort_insert_rev_insort[OF assms(1,2), of "sort_key f (rev ys)"] assms(3) by simp

lemma binary_insert_bad_front:
  assumes "throws_on cmp bad A" "cmp_descending_by cmp f G" "G \<subseteq> A" "u \<in> A" "bad u"
    and "\<forall>y\<in>G. \<not> bad y" "set ys \<subseteq> G" "p \<in> G"
  shows "((\<forall>y\<in>set ys. f y < f p) \<longrightarrow> isl (binary_insert cmp p (u # rev (sort_key f (rev ys))))) \<and>
     (\<not> (\<forall>y\<in>set ys. f y < f p) \<longrightarrow>
        binary_insert cmp p (u # rev (sort_key f (rev ys))) = Inr (u # rev (sort_key f (rev (ys @ [p])))))"
proof -
  define T where "T = rev (sort_key f (rev ys))"
  have pA: "p \<in> A" using assms(3,8) by auto
  have cmpT: "\<forall>i<length T. \<exists>c. cmp p (T ! i) = Inr c \<and>
      (c < 0 \<longleftrightarrow> length (takeWhile (\<lambda>y. \<not> f y < f p) T) \<le> i)"
    unfolding T_def using assms(2,7,8) by (intro descending_split rev_sort_key_rev_sorted_wrt) auto
  have u_isl: "isl (cmp p u)" using assms(1,4,5) pA unfolding throws_on_def by blast
  have left: "isl (binary_insert cmp p (u # T))" if all: "\<forall>y\<in>set ys. f y < f p"
  proof -
    from all have "\<forall>y\<in>set T. f y < f p" by (simp add: T_def)
    then have "takeWhile (\<lambda>y. \<not> f y < f p) T = []" by (cases T) auto
    with cmpT have neg: "\<forall>i<length T. \<exists>c. cmp p (T ! i) = Inr c \<and> c < 0" by simp
    show ?thesis
    proof (cases "bin_pos cmp p (u # T) 0 (length (u # T))")
      case (Inr pos)
      have "\<forall>i<length (u # T). isl (cmp p ((u # T) ! i)) \<or> (\<exists>c. cmp p ((u # T) ! i) = Inr c \<and> c < 0)"
        using neg u_isl by (auto simp: nth_Cons split: nat.split)
      from bin_pos_no_right[OF this Inr] Inr bin_pos_at_left[of cmp p "u # T" 0 "length (u # T)"] u_isl
      show ?thesis by simp
    qed (simp add: binary_insert_def)
  qed
  have right: "binary_insert cmp p (u # T) = Inr (u # rev (sort_key f (rev (ys @ [p]))))"
    if some: "\<not> (\<forall>y\<in>set ys. f y < f p)"
  proof -
    define n where "n = length (takeWhile (\<lambda>y. \<not> f y < f p) T)"
    from some obtain y where "y \<in> set ys" "\<not> f y < f p" by blast
    then have "y \<in> set T" and "\<not> f y < f p" by (simp_all add: T_def)
    moreover have "\<forall>x\<in>set T. f x \<le> f (hd T)"
      using rev_sort_key_rev_sorted_wrt[of f ys] unfolding T_def[symmetric] by (cases T) auto
    ultimately have "T \<noteq> [] \<and> \<not> f (hd T) < f p" by fastforce
    then have "takeWhile (\<lambda>y. \<not> f y < f p) T \<noteq> []" by (cases T) auto
    then have n1: "1 \<le> n" unfolding n_def by (metis length_greater_0_conv less_eq_Suc_le One_nat_def)
    have nT: "n \<le> length T" by (simp add: n_def length_takeWhile_le)
    have shifted: "\<forall>i<length (u # T). 0 < i \<longrightarrow>
        (\<exists>c. cmp p ((u # T) ! i) = Inr c \<and> (c < 0 \<longleftrightarrow> Suc n \<le> i))"
      using cmpT unfolding n_def[symmetric] by (auto simp: nth_Cons split: nat.split)
    have "bin_pos cmp p (u # T) 0 (length (u # T)) = Inr (Suc n)"
      using n1 nT
      by (intro bin_pos_exact_skip0[where s = "u # T" and cmp = cmp and p = p and n = "Suc n", OF shifted]) auto
    then have ins: "binary_insert cmp p (u # T) = Inr (u # (take n T @ p # drop n T))"
      by (simp add: binary_insert_def)
    have "sort_insert cmp p T = Inr (take n T @ p # drop n T)"
      using sort_insert_at[where s = T and cmp = cmp and p = p, OF cmpT] nT by (simp add: n_def)
    moreover have "sort_insert cmp p T = Inr (rev (sort_key f (rev (ys @ [p]))))"
      unfolding T_def using assms(2,7,8) by (intro sort_insert_descending) auto
    ultimately show ?thesis using ins by simp
  qed
  show ?thesis using left right by (simp add: T_def)
qed

lemma bin_insertion_sort_bad_front:
  assumes "throws_on cmp bad A" "cmp_descending_by cmp f G" "G \<subseteq> A" "u \<in> A" "bad u"
    and "\<forall>y\<in>G. \<not> bad y"
  shows "set ys \<subseteq> G \<Longrightarrow> set xs \<subseteq> G \<Longrightarrow>
     isl (bin_insertion_sort cmp (u # rev (sort_key f (rev ys))) xs) \<longleftrightarrow>
       (\<exists>j<length xs. \<forall>y\<in>set (ys @ take j xs). f y < f (xs ! j))"
proof (induction xs arbitrary: ys)
  case (Cons p xs)
  have ins: "((\<forall>y\<in>set ys. f y < f p) \<longrightarrow> isl (binary_insert cmp p (u # rev (sort_key f (rev ys))))) \<and>
     (\<not> (\<forall>y\<in>set ys. f y < f p) \<longrightarrow>
        binary_insert cmp p (u # rev (sort_key f (rev ys))) = Inr (u # rev (sort_key f (rev (ys @ [p])))))"
    using Cons.prems by (intro binary_insert_bad_front[OF assms]) auto
  show ?case
  proof (cases "\<forall>y\<in>set ys. f y < f p")
    case True
    with ins show ?thesis
      by (cases "binary_insert cmp p (u # rev (sort_key f (rev ys)))") (auto intro!: exI[of _ 0])
  next
    case False
    have IH: "isl (bin_insertion_sort cmp (u # rev (sort_key f (rev (ys @ [p])))) xs) \<longleftrightarrow>
        (\<exists>j<length xs. \<forall>y\<in>set ((ys @ [p]) @ take j xs). f y < f (xs ! j))"
      using Cons.prems by (intro Cons.IH) auto
    have "(\<exists>j<length (p # xs). \<forall>y\<in>set (ys @ take j (p # xs)). f y < f ((p # xs) ! j)) \<longleftrightarrow>
        (\<exists>j<length xs. \<forall>y\<in>set ((ys @ [p]) @ take j xs). f y < f (xs ! j))"
    proof
      assume "\<exists>j<length (p # xs). \<forall>y\<in>set (ys @ take j (p # xs)). f y < f ((p # xs) ! j)"
      then obtain j where j: "j < length (p # xs)" "\<forall>y\<in>set (ys @ take j (p # xs)). f y < f ((p # xs) ! j)"
        by blast
      with False obtain k where "j = Suc k" by (cases j) auto
      with j show "\<exists>j<length xs. \<forall>y\<in>set ((ys @ [p]) @ take j xs). f y < f (xs ! j)" by auto
    next
      assume "\<exists>j<length xs. \<forall>y\<in>set ((ys @ [p]) @ take j xs). f y < f (xs ! j)"
      then obtain j where "j < length xs" "\<forall>y\<in>set ((ys @ [p]) @ take j xs). f y < f (xs ! j)" by blast
      then show "\<exists>j<length (p # xs). \<forall>y\<in>set (ys @ take j (p # xs)). f y < f ((p # xs) ! j)"
        by (intro exI[of _ "Suc j"]) auto
    qed
    with IH ins False show ?thesis by simp
  qed
qed simp

lemma bin_insertion_sort_bad_front_Inr:
  assumes "throws_on cmp bad A" "cmp_descending_by cmp f G" "G \<subseteq> A" "u \<in> A" "bad u"
    and "\<forall>y\<in>G. \<not> bad y"
  shows "set ys \<subseteq> G \<Longrightarrow> set xs \<subseteq> G \<Longrightarrow>
     bin_insertion_sort cmp (u # rev (sort_key f (rev ys))) xs = Inr zs \<Longrightarrow>
       zs = u # rev (sort_key f (rev (ys @ xs)))"
proof (induction xs arbitrary: ys)
  case (Cons p xs)
  have ins: "((\<forall>y\<in>set ys. f y < f p) \<longrightarrow> isl (binary_insert cmp p (u # rev (sort_key f (rev ys))))) \<and>
     (\<not> (\<forall>y\<in>set ys. f y < f p) \<longrightarrow>
        binary_insert cmp p (u # rev (sort_key f (rev ys))) = Inr (u # rev (sort_key f (rev (ys @ [p])))))"
    using Cons.prems by (intro binary_insert_bad_front[OF assms]) auto
  show ?case
  proof (cases "\<forall>y\<in>set ys. f y < f p")
    case True
    with ins Cons.prems(3) show ?thesis
      by (cases "binary_insert cmp p (u # rev (sort_key f (rev ys)))") auto
  next
    case False
    with ins Cons.prems(3) have "bin_insertion_sort cmp (u # rev (sort_key f (rev (ys @ [p])))) xs = Inr zs"
      by simp
    with Cons.prems(1,2) Cons.IH[of "ys @ [p]"] show ?thesis by simp
  qed
qed simp

lemma binary_insert_bad_pivot:
  assumes "throws_on cmp bad A" "G \<subseteq> A" "u \<in> A" "bad u" "\<forall>y\<in>G. \<not> bad y" "set pre \<subseteq> G"
  shows "binary_insert cmp u (rev (sort_key f (rev pre))) = Inr (u # rev (sort_key f (rev pre)))"
proof -
  define T where "T = rev (sort_key f (rev pre))"
  have "\<forall>i<length T. \<exists>c. cmp u (T ! i) = Inr c \<and> (c < 0 \<longleftrightarrow> 0 \<le> i)"
  proof (intro allI impI)
    fix i assume "i < length T"
    then have "T ! i \<in> G" using assms(6) nth_mem[of i T] by (auto simp: T_def)
    with assms(1-5) show "\<exists>c. cmp u (T ! i) = Inr c \<and> (c < 0 \<longleftrightarrow> 0 \<le> i)"
      unfolding throws_on_def by blast
  qed
  from binary_insert_at[where s = T and cmp = cmp and p = u and n = 0, OF this]
  show ?thesis by (simp add: T_def)
qed

lemma filter_key_le1:
  fixes f :: "'a \<Rightarrow> 'b::linorder"
  shows "sorted_wrt (\<lambda>a b. f a < f b) xs \<Longrightarrow> length (filter (\<lambda>x. f k = f x) xs) \<le> 1"
proof (induction xs)
  case (Cons x xs)
  show ?case
  proof (cases "f k = f x")
    case True
    have "\<forall>y\<in>set xs. f x < f y" using Cons.prems by simp
    then have "\<forall>y\<in>set xs. f k \<noteq> f y" using True by fastforce
    then have "filter (\<lambda>y. f k = f y) xs = []" by (simp add: filter_empty_conv)
    with True show ?thesis by simp
  next
    case False
    with Cons show ?thesis by simp
  qed
qed simp

lemma strict_sorted_sort_key_rev:
  assumes st: "sorted_wrt (\<lambda>a b. f a < f b) xs"
  shows "sort_key f (rev xs) = xs"
proof (rule properties_for_sort_key)
  show "mset xs = mset (rev xs)" by simp
  have "sorted_wrt (\<lambda>a b. f a \<le> f b) xs"
    using st by (rule sorted_wrt_mono_rel[rotated]) simp
  then show "sorted (map f xs)" by (simp add: sorted_wrt_map)
next
  fix k
  have "rev (filter (\<lambda>x. f k = f x) xs) = filter (\<lambda>x. f k = f x) xs"
    using filter_key_le1[OF st, of k] by (cases "filter (\<lambda>x. f k = f x) xs") auto
  then show "filter (\<lambda>x. f k = f x) xs = filter (\<lambda>x. f k = f x) (rev xs)"
    by (simp add: rev_filter)
qed
text \<open>With exactly one bad element \<open>u\<close> and a key order on the others, the sort takes one
  of two shapes. If the elements before \<open>u\<close> have strictly increasing keys, the run
  detection takes them and \<open>u\<close> into one descending run: the sort then returns that run
  reversed when \<open>u\<close> is last and throws at the next comparison otherwise. Otherwise \<open>u\<close>
  is placed by the binary insertion in front of the sorted elements before it, and the
  remaining elements are inserted behind it.\<close>

lemma js_sort_one_bad_shape:
  assumes T: "throws_on cmp bad (set (pre @ u # post))"
    and D: "cmp_descending_by cmp f (set pre \<union> set post)"
    and B: "bad u" and G: "\<forall>y\<in>set pre \<union> set post. \<not> bad y"
  shows "(pre \<noteq> [] \<and> sorted_wrt (\<lambda>a b. f a < f b) pre \<and>
           (isl (js_sort cmp (pre @ u # post)) \<longleftrightarrow> post \<noteq> []) \<and>
           (post = [] \<longrightarrow> js_sort cmp (pre @ u # post) = Inr (u # rev pre))) \<or>
         (\<not> (pre \<noteq> [] \<and> sorted_wrt (\<lambda>a b. f a < f b) pre) \<and>
           js_sort cmp (pre @ u # post) = bin_insertion_sort cmp (u # rev (sort_key f (rev pre))) post)"
proof -
  have u_isl: "\<And>x. x \<in> set (pre @ u # post) \<Longrightarrow> isl (cmp x u)"
    using T B unfolding throws_on_def by auto
  have u_neg: "\<And>y. y \<in> set pre \<union> set post \<Longrightarrow> \<exists>c. cmp u y = Inr c \<and> c < 0"
    using T B G unfolding throws_on_def by auto
  have tail: "isl (run_ext cmp True u post) \<longleftrightarrow> post \<noteq> []"
  proof (cases post)
    case (Cons a list)
    then have "isl (cmp a u)" using u_isl by simp
    then obtain e where "cmp a u = Inl e" by (cases "cmp a u") auto
    with Cons show ?thesis by simp
  qed simp
  have front: "binary_insert cmp u (rev (sort_key f (rev pre))) = Inr (u # rev (sort_key f (rev pre)))"
    using T B G by (intro binary_insert_bad_pivot[where A = "set (pre @ u # post)" and G = "set pre \<union> set post"])
      auto
  show ?thesis
  proof (cases pre rule: remdups_adj.cases)
    case 1
    have "js_sort cmp (u # post) = bin_insertion_sort cmp [u] post"
    proof (cases post)
      case (Cons a list)
      then have "isl (cmp a u)" using u_isl by simp
      then obtain e where "cmp a u = Inl e" by (cases "cmp a u") auto
      with Cons show ?thesis by (simp add: js_sort_two_Inl binary_insert_def bin_pos_step)
    qed simp
    with 1 show ?thesis by simp
  next
    case (2 a0)
    from u_neg[of a0] obtain c where c: "cmp u a0 = Inr c" "c < 0" by (auto simp: 2)
    have "(isl (js_sort cmp (pre @ u # post)) \<longleftrightarrow> post \<noteq> []) \<and>
        (post = [] \<longrightarrow> js_sort cmp (pre @ u # post) = Inr (u # rev pre))"
      using c tail by (cases "run_ext cmp True u post")
        (auto simp: 2 js_sort_Cons_Cons count_and_make_run_def)
    with 2 show ?thesis by simp
  next
    case (3 a0 a1 rest0)
    have Dpre: "cmp_descending_by cmp f (set pre)"
      using D by (auto simp: cmp_descending_by_def)
    from js_sort_descending[OF Dpre] obtain run rest' where
      cm: "count_and_make_run cmp a0 a1 rest0 = Inr (run, rest')"
      and ins: "bin_insertion_sort cmp run rest' = Inr (rev (sort_key f (rev pre)))"
      by (auto simp: 3 js_sort_Cons_Cons js_bind_eq_Inr)
    have "a0 \<in> set pre \<union> set post" "a1 \<in> set pre \<union> set post" by (simp_all add: 3)
    with D obtain c where c: "cmp a1 a0 = Inr c" and ci: "c < 0 \<longleftrightarrow> f a0 < f a1"
      by (blast dest: cmp_descending_byD)
    from cm c obtain r where rx: "run_ext cmp (c < 0) a1 rest0 = Inr (r, rest')"
      and run: "run = (if c < 0 then rev (a0 # a1 # r) else a0 # a1 # r)"
      by (auto simp: count_and_make_run_def js_map_eq_Inr)
    have last_neg: "\<exists>c'. cmp u (last (a1 # rest0)) = Inr c' \<and> c' < 0"
      using u_neg by (simp add: 3)
    have sorted_iff: "sorted_wrt (\<lambda>a b. f a < f b) pre \<longleftrightarrow>
        f a0 < f a1 \<and> run_ext cmp True a1 rest0 = Inr (rest0, [])"
    proof -
      have "run_ext cmp True a1 rest0 = Inr (rest0, []) \<longleftrightarrow> sorted_wrt (\<lambda>a b. f a < f b) (a1 # rest0)"
        using D by (intro run_ext_desc_sorted[where A = "set pre \<union> set post"]) (auto simp: 3)
      then show ?thesis by (auto simp: 3 intro: order.strict_trans)
    qed
    show ?thesis
    proof (cases "c < 0 \<and> rest' = []")
      case True
      with rx have rx': "run_ext cmp True a1 rest0 = Inr (rest0, [])"
        using run_ext_Nil_rest[of cmp True a1 rest0 r] by auto
      from last_neg obtain c' where "cmp u (last (a1 # rest0)) = Inr c'" "c' < 0" by blast
      then have ext: "run_ext cmp True a1 (rest0 @ u # post) =
          js_map (\<lambda>(r', rest''). (rest0 @ r', rest'')) (js_map (\<lambda>(r, rest). (u # r, rest)) (run_ext cmp True u post))"
        using run_ext_append_all[OF rx', of "u # post"] by simp
      have "(isl (js_sort cmp (pre @ u # post)) \<longleftrightarrow> post \<noteq> []) \<and>
          (post = [] \<longrightarrow> js_sort cmp (pre @ u # post) = Inr (u # rev pre))"
        using c True tail ext by (cases "run_ext cmp True u post")
          (auto simp: 3 js_sort_Cons_Cons count_and_make_run_def)
      with True sorted_iff ci rx' show ?thesis by (simp add: 3)
    next
      case False
      have "count_and_make_run cmp a0 a1 (rest0 @ u # post) = Inr (run, rest' @ u # post)"
      proof (cases rest')
        case (Cons x rest'')
        from run_ext_append_stop[OF rx[unfolded Cons]] c run Cons show ?thesis
          by (simp add: count_and_make_run_def)
      next
        case Nil
        with False have nc: "\<not> c < 0" by simp
        with rx Nil have rx': "run_ext cmp False a1 rest0 = Inr (rest0, [])"
          using run_ext_Nil_rest[of cmp False a1 rest0 r] by auto
        from last_neg obtain c' where "cmp u (last (a1 # rest0)) = Inr c'" "c' < 0" by blast
        then have "run_ext cmp False a1 (rest0 @ u # post) = Inr (rest0, u # post)"
          using run_ext_append_all[OF rx', of "u # post"] by simp
        with c nc run Nil rx' rx show ?thesis
          using run_ext_Nil_rest[of cmp False a1 rest0 r] by (simp add: count_and_make_run_def)
      qed
      from js_sort_split_run[OF cm this] have
        "js_sort cmp (pre @ u # post) = bin_insertion_sort cmp (rev (sort_key f (rev pre))) (u # post)"
        using ins by (simp add: 3 js_sort_Cons_Cons cm)
      with front have "js_sort cmp (pre @ u # post) = bin_insertion_sort cmp (u # rev (sort_key f (rev pre))) post"
        by simp
      moreover have "\<not> sorted_wrt (\<lambda>a b. f a < f b) pre"
        using False sorted_iff ci rx by (cases "c < 0") auto
      ultimately show ?thesis by simp
    qed
  qed
qed

text \<open>The sort throws exactly when \<open>u\<close> is followed by some element and either the
  elements before \<open>u\<close> have strictly increasing keys or a later element has a key above
  every key before it (its binary search goes left down to \<open>u\<close>).\<close>

theorem js_sort_one_bad_iff:
  assumes T: "throws_on cmp bad (set (pre @ u # post))"
    and D: "cmp_descending_by cmp f (set pre \<union> set post)"
    and B: "bad u" and G: "\<forall>y\<in>set pre \<union> set post. \<not> bad y"
  shows "isl (js_sort cmp (pre @ u # post)) \<longleftrightarrow>
     post \<noteq> [] \<and> (sorted_wrt (\<lambda>a b. f a < f b) pre \<or>
       (\<exists>j<length post. \<forall>y\<in>set (pre @ take j post). f y < f (post ! j)))"
proof -
  have front: "isl (bin_insertion_sort cmp (u # rev (sort_key f (rev pre))) post) \<longleftrightarrow>
      (\<exists>j<length post. \<forall>y\<in>set (pre @ take j post). f y < f (post ! j))"
    using T D B G by (intro bin_insertion_sort_bad_front[where A = "set (pre @ u # post)" and G = "set pre \<union> set post"])
      auto
  have nil: "(\<exists>j<length post. \<forall>y\<in>set ([] @ take j post). f y < f (post ! j)) \<longleftrightarrow> post \<noteq> []"
    by (cases post) auto
  from js_sort_one_bad_shape[OF T D B G] show ?thesis
  proof
    assume "\<not> (pre \<noteq> [] \<and> sorted_wrt (\<lambda>a b. f a < f b) pre) \<and>
      js_sort cmp (pre @ u # post) = bin_insertion_sort cmp (u # rev (sort_key f (rev pre))) post"
    with front nil show ?thesis by (cases "pre = []") auto
  qed auto
qed

theorem js_sort_one_bad_Inr:
  assumes T: "throws_on cmp bad (set (pre @ u # post))"
    and D: "cmp_descending_by cmp f (set pre \<union> set post)"
    and B: "bad u" and G: "\<forall>y\<in>set pre \<union> set post. \<not> bad y"
    and R: "js_sort cmp (pre @ u # post) = Inr zs"
  shows "zs = u # rev (sort_key f (rev (pre @ post)))"
  using js_sort_one_bad_shape[OF T D B G]
proof
  assume "pre \<noteq> [] \<and> sorted_wrt (\<lambda>a b. f a < f b) pre \<and>
      (isl (js_sort cmp (pre @ u # post)) \<longleftrightarrow> post \<noteq> []) \<and>
      (post = [] \<longrightarrow> js_sort cmp (pre @ u # post) = Inr (u # rev pre))"
  with R show ?thesis by (auto simp: strict_sorted_sort_key_rev)
next
  assume "\<not> (pre \<noteq> [] \<and> sorted_wrt (\<lambda>a b. f a < f b) pre) \<and>
      js_sort cmp (pre @ u # post) = bin_insertion_sort cmp (u # rev (sort_key f (rev pre))) post"
  with R T D B G show ?thesis
    by (intro bin_insertion_sort_bad_front_Inr[where A = "set (pre @ u # post)" and G = "set pre \<union> set post"])
      auto
qed

end
