(* ===== verification/SiteConfig.thy ===== *)
theory SiteConfig
  imports Prelude
begin

text \<open>
  The site's media host and the rule that decides whether an image URL points at it.
  \<open>src/next.config.js\<close> configures \<open>images.domains\<close>, the hosts \<open>next/image\<close> may load
  from: \<open>res.cloudinary.com\<close> only. \<open>isAbsoluteURL\<close> lives in \<open>@/utils/helpers\<close>,
  which is not among the sources; it is modelled from the spec's ownership rule
  (section 4.3): a URL is "absolute" when it is an \<open>http\<close> or \<open>https\<close> URL whose host is
  the site's media host.
\<close>

definition image_domains :: "string list" where
  "image_domains = [''res.cloudinary.com'']"

definition url_host :: "string \<Rightarrow> string option" where
  "url_host u =
     (if take 8 u = ''https://'' then Some (takeWhile (\<lambda>c. c \<noteq> CHR ''/'') (drop 8 u))
      else if take 7 u = ''http://'' then Some (takeWhile (\<lambda>c. c \<noteq> CHR ''/'') (drop 7 u))
      else None)"

definition isAbsoluteURL :: "string \<Rightarrow> bool" where
  "isAbsoluteURL u = (case url_host u of None \<Rightarrow> False | Some h \<Rightarrow> h \<in> set image_domains)"

lemma isAbsoluteURL_cloudinary:
  "isAbsoluteURL (''https://res.cloudinary.com/'' @ path)"
  by (simp add: isAbsoluteURL_def url_host_def image_domains_def)

lemma isAbsoluteURL_relative:
  "u \<noteq> [] \<Longrightarrow> hd u = CHR ''/'' \<Longrightarrow> \<not> isAbsoluteURL u"
  by (cases u) (auto simp: isAbsoluteURL_def url_host_def)

end
