(* ===== verification/Content.thy ===== *)
theory Content
  imports Prelude
begin

text \<open>
  The documents of the file-based content layer (Contentlayer, \<open>contentlayer/generated\<close>)
  as the pages read them: a project with its Cloudinary image and optional display
  level, and an achievement with its optional date, prize value, proof and image.
  The generated types are not part of the repository's sources; the records list the
  fields that \<open>src/pages/projects/index.tsx\<close>, \<open>src/pages/achievements.tsx\<close> and
  \<open>src/components/Projects/ProjectCard/ProjectCard.tsx\<close> read, with the spec's data
  model (section 3) for which of them are optional. A field that may be absent in the
  content is an \<open>option\<close>: \<open>None\<close> stands for JavaScript's \<open>undefined\<close> and \<open>null\<close>.
\<close>

record cloudinary_image =
  url :: string

record project =
  project_id :: string   \<comment> \<open>\<open>_id\<close>\<close>
  slug :: string
  name :: string
  description :: string
  link :: string
  githubLink :: string
  project_image :: "cloudinary_image option"
  video :: "string option"
  badges :: "string list"
  level :: "int option"

record achievement =
  achievement_id :: string   \<comment> \<open>\<open>_id\<close>\<close>
  title :: string
  body_code :: string        \<comment> \<open>\<open>body.code\<close>, the compiled MDX body\<close>
  date :: "string option"
  prizeValue :: "string option"
  achievement_proof :: "string option"
  achievement_image :: "string option"

end
