(* ===== verification/ProjectCard.thy ===== *)
theory ProjectCard
  imports Content
begin

text \<open>
  The project card, \<open>src/components/Projects/ProjectCard/ProjectCard.tsx\<close>. Its props
  (\<open>ProjectProps\<close>) are the project's slug, name, description, links and image; the card
  renders the image from \<open>image.url\<close>, the name and description, a link for each
  non-empty link (\<open>link && \<dots>\<close>) labelled by the helpers \<open>cleanLink\<close> and
  \<open>getGitHubOwnerAndRepoFromLink\<close> of \<open>@/utils/helpers\<close>, and a "Learn More" link to
  \<open>/projects/<slug>\<close>. The helpers are not among the sources: the card takes them as an
  interface record \<open>link_helpers\<close>, and every lemma holds for any helpers.
  \<open>ProjectProps\<close> types \<open>image\<close> as always present, but the value the page passes is the
  content's optional image, so the prop is an \<open>option\<close> here, and reading \<open>image.url\<close>
  of a missing image throws.
\<close>

record project_props =
  props_slug :: string
  props_name :: string
  props_description :: string
  props_link :: string
  props_githubLink :: string
  props_image :: "cloudinary_image option"

record link_helpers =
  cleanLink :: "string \<Rightarrow> string"
  getGitHubOwnerAndRepoFromLink :: "string \<Rightarrow> string"

datatype link_el = Link (link_href: string) (link_label: string) (link_icon: bool)

record card_view =
  img_src :: string
  img_alt :: string
  heading :: string
  card_text :: string
  card_links :: "link_el list"
  learn_more :: link_el

definition ProjectCard :: "link_helpers \<Rightarrow> project_props \<Rightarrow> card_view js_result" where
  "ProjectCard h p =
     (case props_image p of
        None \<Rightarrow> Inl (TypeError ''Cannot read properties of undefined (reading 'url')'')
      | Some img \<Rightarrow> Inr
          \<lparr>img_src = url img,
           img_alt = props_name p,
           heading = props_name p,
           card_text = props_description p,
           card_links =
             (if props_link p \<noteq> [] then [Link (props_link p) (cleanLink h (props_link p)) False]
              else []) @
             (if props_githubLink p \<noteq> []
              then [Link (props_githubLink p)
                      (getGitHubOwnerAndRepoFromLink h (props_githubLink p)) True]
              else []),
           learn_more = Link (''/projects/'' @ props_slug p) ''Learn More'' False\<rparr>)"

lemma ProjectCard_Inr_iff:
  "(\<exists>v. ProjectCard h p = Inr v) \<longleftrightarrow> props_image p \<noteq> None"
  by (auto simp: ProjectCard_def split: option.splits)

lemma ProjectCard_Inl_iff:
  "(\<exists>e. ProjectCard h p = Inl e) \<longleftrightarrow> props_image p = None"
  by (auto simp: ProjectCard_def split: option.splits)

lemma ProjectCard_heading: "ProjectCard h p = Inr v \<Longrightarrow> heading v = props_name p"
  by (auto simp: ProjectCard_def split: option.splits)

subsection \<open>Properties\<close>

text \<open>C10: a card that renders shows the project's image, name and description, a link
  for each non-empty link of the project (the site link first, then the GitHub link),
  and a "Learn More" link to the project's own page.\<close>

theorem ProjectCard_content:
  "ProjectCard h p = Inr v \<Longrightarrow>
     (\<exists>img. props_image p = Some img \<and> img_src v = url img) \<and>
     heading v = props_name p \<and> card_text v = props_description p \<and>
     map link_href (card_links v) = filter (\<lambda>s. s \<noteq> []) [props_link p, props_githubLink p] \<and>
     link_href (learn_more v) = ''/projects/'' @ props_slug p"
  by (auto simp: ProjectCard_def split: option.splits)

theorem ProjectCard_content_witness:
  "\<exists>v. ProjectCard \<lparr>cleanLink = (\<lambda>s. s), getGitHubOwnerAndRepoFromLink = (\<lambda>s. s)\<rparr>
          \<lparr>props_slug = ''harry-stage'', props_name = ''Harry Stage'', props_description = ''Portfolio'',
           props_link = [], props_githubLink = ''https://github.com/waitingwittykitty/harry-stage'',
           props_image = Some \<lparr>url = ''https://res.cloudinary.com/harry/stage.png''\<rparr>\<rparr> = Inr v \<and>
        map link_href (card_links v) = [''https://github.com/waitingwittykitty/harry-stage''] \<and>
        link_href (learn_more v) = ''/projects/harry-stage''"
proof -
  let ?h = "\<lparr>cleanLink = (\<lambda>s. s), getGitHubOwnerAndRepoFromLink = (\<lambda>s. s)\<rparr>"
  let ?p = "\<lparr>props_slug = ''harry-stage'', props_name = ''Harry Stage'', props_description = ''Portfolio'',
           props_link = [], props_githubLink = ''https://github.com/waitingwittykitty/harry-stage'',
           props_image = Some \<lparr>url = ''https://res.cloudinary.com/harry/stage.png''\<rparr>\<rparr>"
  obtain v where v: "ProjectCard ?h ?p = Inr v"
    using ProjectCard_Inr_iff[of ?h ?p] by auto
  with ProjectCard_content[OF v] show ?thesis by auto
qed

end
