(* ===== verification/Projects.thy ===== *)
theory Projects
  imports V8Sort SiteConfig ProjectCard
begin

text \<open>
  The projects listing, \<open>src/pages/projects/index.tsx\<close>, in its two phases.
  \<^item> Build time, \<open>getStaticProps\<close>: a \<open>for \<dots> of\<close> loop over the content's projects
    that awaits, for each project with an image whose URL \<open>isAbsoluteURL\<close> accepts, the
    preview-image service (\<open>getPreviewImageUrl\<close>), and pushes the project spread with
    the resulting \<open>placeholderImage\<close>. The model threads the list of URLs sent to the
    service (\<open>log\<close>) through the loop, so which external calls happen, and in which
    order, is part of the result. The service is a parameter \<open>svc\<close>: for a URL it
    answers with a placeholder, with nothing, or rejects.
  \<^item> Render time, \<open>ProjectsPage\<close>: the projects are sorted in place with the comparator
    \<open>(b.level || 0) - (a.level || 0)\<close> and each is rendered as a \<open>ProjectCard\<close>.
  \<open>getPreviewImageUrl\<close> (\<open>@/utils/getPreviewImageURL\<close>) is not among the sources; it is
  modelled from the spec (section 6): the service's answer, or the URL itself when the
  service has none; a rejection propagates.
\<close>

record project_with_placeholder = project +
  placeholderImage :: "string option"

type_synonym preview_service = "string \<Rightarrow> string option js_result"

definition getPreviewImageUrl :: "preview_service \<Rightarrow> string \<Rightarrow> string js_result" where
  "getPreviewImageUrl svc u =
     js_bind (svc u) (\<lambda>answer. case answer of None \<Rightarrow> Inr u | Some p \<Rightarrow> Inr p)"

subsection \<open>\<open>getStaticProps\<close>\<close>

definition previewUrl_step ::
  "preview_service \<Rightarrow> project \<Rightarrow> string list \<Rightarrow> string option js_result \<times> string list" where
  "previewUrl_step svc p log =
     (case project_image p of
        None \<Rightarrow> (Inr None, log)
      | Some img \<Rightarrow>
          if isAbsoluteURL (url img)
          then (js_map Some (getPreviewImageUrl svc (url img)), log @ [url img])
          else (Inr (Some (url img)), log))"

definition with_placeholder :: "project \<Rightarrow> string option \<Rightarrow> project_with_placeholder" where
  "with_placeholder p u = project.extend p (project_with_placeholder.fields u)"

fun placeholders_loop ::
  "preview_service \<Rightarrow> project list \<Rightarrow> project_with_placeholder list \<Rightarrow> string list
     \<Rightarrow> project_with_placeholder list js_result \<times> string list" where
  "placeholders_loop svc [] acc log = (Inr acc, log)"
| "placeholders_loop svc (p # ps) acc log =
     (case previewUrl_step svc p log of
        (Inl e, log') \<Rightarrow> (Inl e, log')
      | (Inr previewUrl, log') \<Rightarrow>
          placeholders_loop svc ps (acc @ [with_placeholder p previewUrl]) log')"

definition projects_getStaticProps ::
  "preview_service \<Rightarrow> project list \<Rightarrow> project_with_placeholder list js_result \<times> string list" where
  "projects_getStaticProps svc allProjects = placeholders_loop svc allProjects [] []"

text \<open>
  The spec's view of the loop (section 9): each project is an independent task, and the
  requests the build may send to the preview service are the absolute image URLs, in
  the order of the projects.
\<close>

definition resolve_project :: "preview_service \<Rightarrow> project \<Rightarrow> project_with_placeholder js_result" where
  "resolve_project svc p = js_map (with_placeholder p) (fst (previewUrl_step svc p []))"

definition preview_requests :: "project list \<Rightarrow> string list" where
  "preview_requests ps =
     concat (map (\<lambda>p. case project_image p of
                         None \<Rightarrow> []
                       | Some img \<Rightarrow> if isAbsoluteURL (url img) then [url img] else []) ps)"

subsection \<open>\<open>ProjectsPage\<close>\<close>

definition level_cmp :: "project_with_placeholder comparator" where
  "level_cmp a b = Inr (js_or_zero (level b) - js_or_zero (level a))"

definition card_props :: "project_with_placeholder \<Rightarrow> project_props" where
  "card_props q =
     \<lparr>props_slug = slug q, props_name = name q, props_description = description q,
      props_link = link q, props_githubLink = githubLink q, props_image = project_image q\<rparr>"

definition ProjectsPage ::
  "link_helpers \<Rightarrow> project_with_placeholder list \<Rightarrow> card_view list js_result" where
  "ProjectsPage h allProjectsWithPlaceholderImages =
     js_bind (js_sort level_cmp allProjectsWithPlaceholderImages)
       (\<lambda>sorted. js_all (map (\<lambda>q. ProjectCard h (card_props q)) sorted))"

text \<open>A project of the content, used to evaluate the properties below on a concrete input.\<close>

abbreviation demo_image :: cloudinary_image where
  "demo_image \<equiv> \<lparr>url = ''https://res.cloudinary.com/harry/image/upload/stage.png''\<rparr>"

abbreviation demo_project :: project where
  "demo_project \<equiv>
     \<lparr>project_id = ''p1'', slug = ''harry-stage'', name = ''harry-stage'',
      description = ''Portfolio site'', link = ''https://harry.dev'',
      githubLink = ''https://github.com/waitingwittykitty/harry-stage'',
      project_image = Some demo_image, video = None, badges = [], level = Some 2\<rparr>"

abbreviation demo_helpers :: link_helpers where
  "demo_helpers \<equiv> \<lparr>cleanLink = (\<lambda>s. s), getGitHubOwnerAndRepoFromLink = (\<lambda>s. s)\<rparr>"

subsection \<open>The build loop\<close>

lemma previewUrl_step_split:
  "previewUrl_step svc p log = (fst (previewUrl_step svc p []), log @ preview_requests [p])"
  by (simp add: previewUrl_step_def preview_requests_def split: option.splits)

lemma preview_requests_Cons: "preview_requests (p # ps) = preview_requests [p] @ preview_requests ps"
  by (simp add: preview_requests_def)

lemma js_map_ident [simp]: "js_map (\<lambda>x. x) r = r"
  by (cases r) simp_all

lemma js_map_js_map: "js_map f (js_map g r) = js_map (\<lambda>x. f (g x)) r"
  by (cases r) simp_all

lemma placeholders_loop_Cons:
  "placeholders_loop svc (p # ps) acc log =
     (case resolve_project svc p of
        Inl e \<Rightarrow> (Inl e, log @ preview_requests [p])
      | Inr q \<Rightarrow> placeholders_loop svc ps (acc @ [q]) (log @ preview_requests [p]))"
  by (cases "fst (previewUrl_step svc p [])")
     (simp_all add: previewUrl_step_split[of svc p log] resolve_project_def)

declare placeholders_loop.simps(2) [simp del]

lemma placeholders_loop_result:
  "fst (placeholders_loop svc ps acc log) = js_map (\<lambda>qs. acc @ qs) (js_all (map (resolve_project svc) ps))"
proof (induction ps arbitrary: acc log)
  case Nil
  then show ?case by simp
next
  case (Cons p ps)
  then show ?case
    by (cases "resolve_project svc p") (simp_all add: placeholders_loop_Cons js_map_js_map)
qed

lemma placeholders_loop_log:
  "\<exists>l. snd (placeholders_loop svc ps acc log) = log @ l \<and> prefix l (preview_requests ps)"
proof (induction ps arbitrary: acc log)
  case Nil
  then show ?case by simp
next
  case (Cons p ps)
  show ?case
  proof (cases "resolve_project svc p")
    case (Inl e)
    then show ?thesis
      by (subst preview_requests_Cons) (auto simp: placeholders_loop_Cons)
  next
    case (Inr q)
    obtain l where "snd (placeholders_loop svc ps (acc @ [q]) (log @ preview_requests [p]))
        = (log @ preview_requests [p]) @ l" and "prefix l (preview_requests ps)"
      using Cons.IH by blast
    with Inr show ?thesis
      by (subst preview_requests_Cons) (auto simp: placeholders_loop_Cons)
  qed
qed

lemma placeholders_loop_log_Inr:
  "fst (placeholders_loop svc ps acc log) = Inr qs \<Longrightarrow>
     snd (placeholders_loop svc ps acc log) = log @ preview_requests ps"
proof (induction ps arbitrary: acc log)
  case Nil
  then show ?case by (simp add: preview_requests_def)
next
  case (Cons p ps)
  then show ?case
    by (cases "resolve_project svc p")
       (auto simp: placeholders_loop_Cons intro: preview_requests_Cons[symmetric])
qed

lemma projects_getStaticProps_single:
  "projects_getStaticProps svc [p] =
     (js_map (\<lambda>q. [q]) (resolve_project svc p), preview_requests [p])"
  by (cases "resolve_project svc p")
     (simp_all add: projects_getStaticProps_def placeholders_loop_Cons)

lemma resolve_project_cases:
  "resolve_project svc p =
     (case project_image p of
        None \<Rightarrow> Inr (with_placeholder p None)
      | Some img \<Rightarrow>
          if isAbsoluteURL (url img)
          then js_map (\<lambda>u. with_placeholder p (Some u)) (getPreviewImageUrl svc (url img))
          else Inr (with_placeholder p (Some (url img))))"
  by (simp add: resolve_project_def previewUrl_step_def js_map_js_map split: option.splits)

lemma with_placeholder_truncate [simp]: "project.truncate (with_placeholder p u) = p"
  by (simp add: with_placeholder_def project.defs project_with_placeholder.defs)

lemma with_placeholder_placeholder [simp]: "placeholderImage (with_placeholder p u) = u"
  by (simp add: with_placeholder_def project.defs project_with_placeholder.defs)

lemma with_placeholder_fields [simp]:
  "level (with_placeholder p u) = level p"
  "project_image (with_placeholder p u) = project_image p"
  "slug (with_placeholder p u) = slug p"
  "name (with_placeholder p u) = name p"
  by (simp_all add: with_placeholder_def project.defs project_with_placeholder.defs)

lemma truncate_fields [simp]:
  "level (project.truncate q) = level q"
  "name (project.truncate q) = name q"
  "project_image (project.truncate q) = project_image q"
  by (simp_all add: project.defs)

lemma resolve_project_Inr:
  assumes answers: "\<forall>u. \<not> isl (svc u)"
  shows "\<exists>q. resolve_project svc p = Inr q"
proof (cases "project_image p")
  case None
  then show ?thesis by (simp add: resolve_project_cases)
next
  case (Some img)
  from answers obtain a where "svc (url img) = Inr a"
    by (cases "svc (url img)") (auto dest: spec[of _ "url img"])
  with Some show ?thesis
    by (cases a) (simp_all add: resolve_project_cases getPreviewImageUrl_def)
qed

lemma resolve_project_Inr_facts:
  "resolve_project svc p = Inr q \<Longrightarrow>
     project.truncate q = p \<and> (placeholderImage q = None \<longleftrightarrow> project_image p = None)"
  by (auto simp: resolve_project_cases js_map_eq_Inr split: option.splits if_splits)

lemma resolve_all_facts:
  "js_all (map (resolve_project svc) ps) = Inr qs \<Longrightarrow>
     list_all2 (\<lambda>p q. project.truncate q = p \<and> (placeholderImage q = None \<longleftrightarrow> project_image p = None)) ps qs"
  by (erule js_all_Inr_list_all2) (rule resolve_project_Inr_facts)

lemma resolve_all_keeps:
  "js_all (map (resolve_project svc) ps) = Inr qs \<Longrightarrow> map project.truncate qs = ps"
proof -
  assume "js_all (map (resolve_project svc) ps) = Inr qs"
  then have "list_all2 (\<lambda>p q. project.truncate q = p) ps qs"
    by (rule list_all2_mono[OF resolve_all_facts]) simp
  then show ?thesis
    by (induction rule: list_all2_induct) simp_all
qed

lemma level_cmp_descending: "cmp_descending_by level_cmp (\<lambda>q. js_or_zero (level q)) A"
  by (simp add: cmp_descending_by_def level_cmp_def)

lemma projects_sort_eq:
  "js_sort level_cmp qs = Inr (sort_key (\<lambda>q. - js_or_zero (level q)) qs)"
  using js_sort_descending[OF level_cmp_descending] by (simp add: rev_sort_key_rev_int)

lemma card_props_placeholder [simp]: "card_props (q\<lparr>placeholderImage := u\<rparr>) = card_props q"
  by (simp add: card_props_def)

lemma ProjectsPage_Inl_iff:
  "(\<exists>e. ProjectsPage h qs = Inl e) \<longleftrightarrow> (\<exists>q\<in>set qs. project_image q = None)"
proof -
  let ?sorted = "sort_key (\<lambda>q. - js_or_zero (level q)) qs"
  have "(\<exists>e. ProjectsPage h qs = Inl e) \<longleftrightarrow>
      (\<exists>r\<in>set (map (\<lambda>q. ProjectCard h (card_props q)) ?sorted). isl r)"
    by (simp add: ProjectsPage_def projects_sort_eq js_all_Inl_iff)
  also have "\<dots> \<longleftrightarrow> (\<exists>q\<in>set qs. project_image q = None)"
    using ProjectCard_Inl_iff[of h] by (force simp: card_props_def isl_def)
  finally show ?thesis .
qed

subsection \<open>Properties of the build step\<close>

text \<open>C1: the sequential loop of \<open>getStaticProps\<close> computes what independent
  per-project tasks joined in order compute (spec section 9: parallelising is safe).\<close>

theorem getStaticProps_sequential_eq_parallel:
  "fst (projects_getStaticProps svc ps) = js_all (map (resolve_project svc) ps)"
  by (simp add: projects_getStaticProps_def placeholders_loop_result)

text \<open>C2: the build sends the preview service nothing but the absolute image URLs of
  the projects, in project order, each once: its requests are a prefix of that list.\<close>

theorem getStaticProps_requests_prefix:
  "prefix (snd (projects_getStaticProps svc ps)) (preview_requests ps)"
  using placeholders_loop_log[of svc ps "[]" "[]"] by (auto simp: projects_getStaticProps_def)

text \<open>C3: when the build succeeds it has requested a preview for every absolute image
  URL.\<close>

theorem getStaticProps_requests_complete:
  "fst (projects_getStaticProps svc ps) = Inr qs \<Longrightarrow>
     snd (projects_getStaticProps svc ps) = preview_requests ps"
  using placeholders_loop_log_Inr[of svc ps "[]" "[]" qs] by (simp add: projects_getStaticProps_def)

text \<open>A project without an image gets the placeholder \<open>null\<close> and causes no call to the
  preview service (spec section 8, fifth property).\<close>

theorem getStaticProps_no_image:
  "project_image p = None \<Longrightarrow>
     projects_getStaticProps svc [p] = (Inr [with_placeholder p None], [])"
  by (simp add: projects_getStaticProps_single resolve_project_cases preview_requests_def)

text \<open>C5: a project whose image URL is on the site's media host is sent to the preview
  service, and its placeholder is the service's answer.\<close>

theorem getStaticProps_media_host:
  "project_image p = Some img \<Longrightarrow> isAbsoluteURL (url img) \<Longrightarrow>
     projects_getStaticProps svc [p] =
       (js_map (\<lambda>u. [with_placeholder p (Some u)]) (getPreviewImageUrl svc (url img)), [url img])"
  by (simp add: projects_getStaticProps_single resolve_project_cases preview_requests_def
      js_map_js_map)

text \<open>C6: a project whose image URL is not on the media host keeps its URL as the
  placeholder, and no call is made.\<close>

theorem getStaticProps_other_host:
  "project_image p = Some img \<Longrightarrow> \<not> isAbsoluteURL (url img) \<Longrightarrow>
     projects_getStaticProps svc [p] = (Inr [with_placeholder p (Some (url img))], [])"
  by (simp add: projects_getStaticProps_single resolve_project_cases preview_requests_def)

text \<open>C7: the build keeps every project, in content order, with all its fields
  (the spread \<open>...project\<close>).\<close>

theorem getStaticProps_keeps_projects:
  "fst (projects_getStaticProps svc ps) = Inr qs \<Longrightarrow> map project.truncate qs = ps"
  by (rule resolve_all_keeps) (simp add: projects_getStaticProps_def placeholders_loop_result)

text \<open>C23: the placeholder is \<open>null\<close> exactly for the projects without an image, although
  \<open>ProjectWithPlaceholderImage\<close> declares \<open>placeholderImage: string\<close>: the build's
  values do not have the declared type.\<close>

theorem getStaticProps_placeholder_type:
  "fst (projects_getStaticProps svc ps) = Inr qs \<Longrightarrow>
     list_all2 (\<lambda>p q. placeholderImage q = None \<longleftrightarrow> project_image p = None) ps qs"
proof -
  assume "fst (projects_getStaticProps svc ps) = Inr qs"
  then have "js_all (map (resolve_project svc) ps) = Inr qs"
    by (simp add: projects_getStaticProps_def placeholders_loop_result)
  then show ?thesis
    by (rule list_all2_mono[OF resolve_all_facts]) simp
qed

subsection \<open>Properties of the page\<close>

text \<open>C8: the page lists the projects by display level, highest first, a missing level
  counting as 0; it keeps every project, and projects of equal level keep their order
  (spec section 8, first property).\<close>

theorem projects_sorted_by_level:
  "\<exists>ys. js_sort level_cmp qs = Inr ys \<and>
     sorted_wrt (\<lambda>a b. js_or_zero (level b) \<le> js_or_zero (level a)) ys \<and>
     mset ys = mset qs \<and>
     (\<forall>k. filter (\<lambda>q. js_or_zero (level q) = k) ys = filter (\<lambda>q. js_or_zero (level q) = k) qs)"
proof -
  have eq: "js_sort level_cmp qs = Inr (rev (sort_key (\<lambda>q. js_or_zero (level q)) (rev qs)))"
    by (rule js_sort_descending[OF level_cmp_descending])
  show ?thesis
    using rev_sort_key_rev_sorted[of "\<lambda>q. js_or_zero (level q)" qs]
      rev_sort_key_rev_stable[of "\<lambda>q. js_or_zero (level q)"]
    by (simp only: eq) (auto simp: sorted_wrt_map)
qed

text \<open>C9: the placeholder computed at build time never reaches the rendered page.\<close>

theorem projects_page_ignores_placeholder:
  "ProjectsPage h (map (\<lambda>q. q\<lparr>placeholderImage := f q\<rparr>) qs) = ProjectsPage h qs"
  by (simp add: ProjectsPage_def projects_sort_eq sort_key_map o_def)

subsection \<open>The properties on concrete inputs\<close>

lemma demo_image_absolute: "isAbsoluteURL (url demo_image)"
  by (simp add: isAbsoluteURL_def url_host_def image_domains_def)

theorem getStaticProps_requests_complete_witness:
  "snd (projects_getStaticProps (\<lambda>u. Inr None) [demo_project]) = [url demo_image]"
proof -
  have ok: "fst (projects_getStaticProps (\<lambda>u. Inr None) [demo_project])
      = Inr [with_placeholder demo_project (Some (url demo_image))]"
    by (simp add: projects_getStaticProps_single resolve_project_cases demo_image_absolute
        getPreviewImageUrl_def)
  show ?thesis
    using getStaticProps_requests_complete[OF ok] demo_image_absolute
    by (simp add: preview_requests_def)
qed

theorem getStaticProps_no_image_witness:
  "projects_getStaticProps (\<lambda>u. Inl (Rejected ''unreachable'')) [demo_project\<lparr>project_image := None\<rparr>]
     = (Inr [with_placeholder (demo_project\<lparr>project_image := None\<rparr>) None], [])"
  by (rule getStaticProps_no_image) simp

theorem getStaticProps_media_host_witness:
  "projects_getStaticProps (\<lambda>u. Inr (Some ''data:image/webp;base64,UklGRg'')) [demo_project]
     = (Inr [with_placeholder demo_project (Some ''data:image/webp;base64,UklGRg'')],
        [''https://res.cloudinary.com/harry/image/upload/stage.png''])"
  using getStaticProps_media_host[of demo_project demo_image] demo_image_absolute
  by (simp add: getPreviewImageUrl_def)

theorem getStaticProps_other_host_witness:
  "projects_getStaticProps (\<lambda>u. Inl (Rejected ''unreachable''))
       [demo_project\<lparr>project_image := Some \<lparr>url = ''/images/stage.png''\<rparr>\<rparr>]
     = (Inr [with_placeholder (demo_project\<lparr>project_image := Some \<lparr>url = ''/images/stage.png''\<rparr>\<rparr>)
              (Some ''/images/stage.png'')], [])"
  using getStaticProps_other_host[of "demo_project\<lparr>project_image := Some \<lparr>url = ''/images/stage.png''\<rparr>\<rparr>"
      "\<lparr>url = ''/images/stage.png''\<rparr>"]
  by (simp add: isAbsoluteURL_def url_host_def)

theorem getStaticProps_keeps_projects_witness:
  "map project.truncate [with_placeholder demo_project (Some (url demo_image))] = [demo_project]"
proof -
  have ok: "fst (projects_getStaticProps (\<lambda>u. Inr None) [demo_project])
      = Inr [with_placeholder demo_project (Some (url demo_image))]"
    by (simp add: projects_getStaticProps_single resolve_project_cases demo_image_absolute
        getPreviewImageUrl_def)
  show ?thesis by (rule getStaticProps_keeps_projects[OF ok])
qed

theorem getStaticProps_placeholder_type_witness:
  "list_all2 (\<lambda>p q. placeholderImage q = None \<longleftrightarrow> project_image p = None)
     [demo_project\<lparr>project_image := None\<rparr>]
     [with_placeholder (demo_project\<lparr>project_image := None\<rparr>) None]"
proof -
  have ok: "fst (projects_getStaticProps (\<lambda>u. Inr None) [demo_project\<lparr>project_image := None\<rparr>])
      = Inr [with_placeholder (demo_project\<lparr>project_image := None\<rparr>) None]"
    by (simp add: projects_getStaticProps_single resolve_project_cases)
  show ?thesis by (rule getStaticProps_placeholder_type[OF ok])
qed

end
