(* ===== verification/Achievements.thy ===== *)
theory Achievements
  imports V8Sort Content
begin

text \<open>
  The achievements listing, \<open>src/pages/achievements.tsx\<close>. At build time
  \<open>getStaticProps\<close> maps every achievement of the content to a \<open>CleanedAchievement\<close>
  (\<open>_id\<close> as \<open>id\<close>, \<open>body.code\<close> as \<open>content\<close>, each optional field defaulted to
  \<open>null\<close> by \<open>?? null\<close>) and sorts the result with the comparator
  \<open>(a, b) => b.date.localeCompare(a.date)\<close>. That comparator reads \<open>b.date\<close> as an
  object: when \<open>b.date\<close> is \<open>null\<close> it throws a \<open>TypeError\<close>, and when only
  \<open>a.date\<close> is \<open>null\<close>, \<open>localeCompare\<close> compares against the text \<open>"null"\<close>.
  The page then renders one \<open>AchievementCard\<close> per cleaned achievement, in order; the
  card component is not among the sources, so the page's result is the list of the
  cards' props.
\<close>

record cleaned_achievement =
  ca_id :: string
  ca_title :: string
  content :: string
  ca_date :: "string option"
  ca_prizeValue :: "string option"
  ca_proof :: "string option"
  ca_image :: "string option"

definition clean_achievement :: "achievement \<Rightarrow> cleaned_achievement" where
  "clean_achievement a =
     \<lparr>ca_id = achievement_id a, ca_title = title a, content = body_code a,
      ca_date = date a, ca_prizeValue = prizeValue a, ca_proof = achievement_proof a,
      ca_image = achievement_image a\<rparr>"

definition date_cmp :: "cleaned_achievement comparator" where
  "date_cmp a b =
     (case ca_date b of
        None \<Rightarrow> Inl (TypeError ''Cannot read properties of null (reading 'localeCompare')'')
      | Some d \<Rightarrow> Inr (locale_compare d (js_to_string (ca_date a))))"

definition achievements_getStaticProps :: "achievement list \<Rightarrow> cleaned_achievement list js_result" where
  "achievements_getStaticProps allAchievements =
     js_sort date_cmp (map clean_achievement allAchievements)"

record achievement_card_props =
  card_key :: string
  card_title :: string
  card_content :: string
  card_date :: "string option"
  card_proof :: "string option"
  card_prizeValue :: "string option"
  card_image :: "string option"

definition AchievementsPage :: "cleaned_achievement list \<Rightarrow> achievement_card_props list" where
  "AchievementsPage achievements =
     map (\<lambda>a. \<lparr>card_key = ca_id a, card_title = ca_title a, card_content = content a,
               card_date = ca_date a, card_proof = ca_proof a,
               card_prizeValue = ca_prizeValue a, card_image = ca_image a\<rparr>) achievements"

definition achievements_build :: "achievement list \<Rightarrow> achievement_card_props list js_result" where
  "achievements_build allAchievements = js_map AchievementsPage (achievements_getStaticProps allAchievements)"

text \<open>Achievements of the content, used to evaluate the properties on concrete inputs.\<close>

abbreviation demo_achievement :: "string \<Rightarrow> string option \<Rightarrow> achievement" where
  "demo_achievement i d \<equiv>
     \<lparr>achievement_id = i, title = ''Hackathon'', body_code = ''<p>won</p>'', date = d,
      prizeValue = None, achievement_proof = None, achievement_image = None\<rparr>"

subsection \<open>The comparator\<close>

lemma date_cmp_descending:
  "\<forall>a\<in>A. ca_date a \<noteq> None \<Longrightarrow> cmp_descending_by date_cmp ca_date A"
  by (auto simp: cmp_descending_by_def date_cmp_def split: option.splits)

lemma dated_clean: "\<forall>a\<in>set xs. date a \<noteq> None \<Longrightarrow> \<forall>c\<in>set (map clean_achievement xs). ca_date c \<noteq> None"
  by (auto simp: clean_achievement_def)

lemma achievements_sort_eq:
  "\<forall>a\<in>set xs. date a \<noteq> None \<Longrightarrow>
     achievements_getStaticProps xs =
       Inr (rev (sort_key ca_date (rev (map clean_achievement xs))))"
  unfolding achievements_getStaticProps_def
  by (rule js_sort_descending[OF date_cmp_descending[OF dated_clean]])

lemma AchievementsPage_keys: "map card_key (AchievementsPage cs) = map ca_id cs"
  by (simp add: AchievementsPage_def)

subsection \<open>Where the comparator throws\<close>

text \<open>The comparator throws exactly when its second argument is undated, and, when the
  dates present sort below \<open>"null"\<close> (every ISO date does), it puts an undated
  achievement before every dated one: it throws on the undated ones in the sense of
  \<^const>\<open>throws_on\<close>, and the engine's sort then lists at most one undated achievement,
  first.\<close>

lemma date_cmp_isl: "isl (date_cmp a b) \<longleftrightarrow> ca_date b = None"
  by (simp add: date_cmp_def split: option.split)

lemma date_cmp_Inl: "date_cmp a b = Inl e \<Longrightarrow> e = TypeError ''Cannot read properties of null (reading 'localeCompare')''"
  by (simp add: date_cmp_def split: option.splits)

lemma date_cmp_throws_on:
  "\<forall>c\<in>A. \<forall>d. ca_date c = Some d \<longrightarrow> d < ''null'' \<Longrightarrow> throws_on date_cmp (\<lambda>c. ca_date c = None) A"
  by (auto simp: throws_on_def date_cmp_def split: option.splits)

lemma clean_dates_below:
  "\<forall>a\<in>set xs. \<forall>d. date a = Some d \<longrightarrow> d < ''null'' \<Longrightarrow>
     \<forall>c\<in>set (map clean_achievement xs). \<forall>d. ca_date c = Some d \<longrightarrow> d < ''null''"
  by (auto simp: clean_achievement_def)

lemma clean_undated_count:
  "length (filter (\<lambda>c. ca_date c = None) (map clean_achievement xs)) = length (filter (\<lambda>a. date a = None) xs)"
  by (induction xs) (simp_all add: clean_achievement_def)

lemma achievements_sort_Inl:
  "achievements_getStaticProps xs = Inl e \<Longrightarrow> e = TypeError ''Cannot read properties of null (reading 'localeCompare')''"
  unfolding achievements_getStaticProps_def by (blast dest: js_sort_Inl date_cmp_Inl)

text \<open>Whether an undated achievement in the middle of the content aborts the build
  depends on the other dates, through the comparisons the binary insertion happens to
  make: with the dates 2022, 2021, none, 2021-06 the last insertion compares the
  2021-06 achievement with those of 2022 and 2021 only, and the build succeeds; with
  2023 in place of 2021-06 the search goes left past 2022 to the undated achievement
  at the front, and the build throws.\<close>

lemma achievements_undated_middle_depends:
  "achievements_getStaticProps
      [demo_achievement ''a1'' (Some ''2022''), demo_achievement ''a2'' (Some ''2021''),
       demo_achievement ''a3'' None, demo_achievement ''a4'' (Some ''2021-06'')] =
     Inr (map clean_achievement
      [demo_achievement ''a3'' None, demo_achievement ''a1'' (Some ''2022''),
       demo_achievement ''a4'' (Some ''2021-06''), demo_achievement ''a2'' (Some ''2021'')]) \<and>
   achievements_getStaticProps
      [demo_achievement ''a1'' (Some ''2022''), demo_achievement ''a2'' (Some ''2021''),
       demo_achievement ''a3'' None, demo_achievement ''a4'' (Some ''2023'')] =
     Inl (TypeError ''Cannot read properties of null (reading 'localeCompare')'')"
  by (simp add: achievements_getStaticProps_def v8_sort_simps date_cmp_def clean_achievement_def
      less_char_def)

subsection \<open>Properties\<close>

text \<open>C11: when every achievement has a date, the build succeeds and lists the
  achievements by date, latest first (dates compared as strings); it keeps every
  achievement, and achievements of the same date keep their content order (spec
  section 8, second property).\<close>

theorem achievements_sorted_by_date:
  assumes "\<forall>a\<in>set xs. date a \<noteq> None"
  shows "\<exists>ys. achievements_getStaticProps xs = Inr ys \<and>
     sorted_wrt (\<lambda>a b. ca_date b \<le> ca_date a) ys \<and>
     mset ys = mset (map clean_achievement xs) \<and>
     (\<forall>d. filter (\<lambda>c. ca_date c = d) ys = filter (\<lambda>c. ca_date c = d) (map clean_achievement xs))"
  using achievements_sort_eq[OF assms]
    rev_sort_key_rev_sorted[of ca_date "map clean_achievement xs"]
    rev_sort_key_rev_stable[of ca_date _ "map clean_achievement xs"]
  by (auto simp: sorted_wrt_map simp del: mset_map)

text \<open>C12: two or more undated achievements make the build throw the \<open>TypeError\<close> of
  \<open>b.date.localeCompare\<close> on the \<open>?? null\<close> default, wherever they stand, when the dates
  present sort below \<open>"null"\<close> (every ISO date does). The engine's sort keeps an undated
  achievement in front of the dated ones, so before the second undated one is placed
  one of them is read as the comparator's second argument.\<close>

theorem achievements_undated_fail:
  assumes "\<forall>a\<in>set xs. \<forall>d. date a = Some d \<longrightarrow> d < ''null''"
    and "2 \<le> length (filter (\<lambda>a. date a = None) xs)"
  shows "achievements_getStaticProps xs =
     Inl (TypeError ''Cannot read properties of null (reading 'localeCompare')'')"
proof -
  have "\<exists>e. js_sort date_cmp (map clean_achievement xs) = Inl e"
    using js_sort_two_bad[OF date_cmp_throws_on[OF clean_dates_below[OF assms(1)]]] assms(2)
    by (simp only: clean_undated_count)
  then show ?thesis
    using achievements_sort_Inl unfolding achievements_getStaticProps_def by blast
qed

text \<open>An undated achievement compared with a dated one is ordered as if its date were
  the text \<open>"null"\<close>: after a dated achievement whose date sorts below \<open>"null"\<close> (every
  ISO date does), it is listed first.\<close>

theorem achievements_null_date_first:
  "date a = Some d \<Longrightarrow> d < ''null'' \<Longrightarrow> date b = None \<Longrightarrow>
     achievements_getStaticProps [a, b] = Inr [clean_achievement b, clean_achievement a]"
  by (simp add: achievements_getStaticProps_def v8_sort_simps date_cmp_def clean_achievement_def)

text \<open>C14: whenever the build succeeds, the page has exactly one card per achievement of
  the content, whatever the dates.\<close>

theorem achievements_build_one_card_each:
  "achievements_build xs = Inr cards \<Longrightarrow>
     mset (map card_key cards) = mset (map achievement_id xs)"
proof -
  assume "achievements_build xs = Inr cards"
  then obtain ys where ys: "achievements_getStaticProps xs = Inr ys" and cards: "cards = AchievementsPage ys"
    by (auto simp: achievements_build_def js_map_eq_Inr)
  from ys have "mset ys = mset (map clean_achievement xs)"
    unfolding achievements_getStaticProps_def by (rule js_sort_mset)
  then have "mset (map ca_id ys) = mset (map ca_id (map clean_achievement xs))"
    by (metis mset_map)
  then show ?thesis
    by (simp add: cards AchievementsPage_keys o_def clean_achievement_def)
qed

text \<open>C22: with the engine's first comparison, \<open>compare(second, first)\<close> (the start of
  V8's run detection, \<^const>\<open>count_and_make_run\<close>), a single undated achievement
  at the head of the content is enough to make the build throw, whatever the others.\<close>

theorem achievements_first_undated_fails:
  "date a = None \<Longrightarrow>
     achievements_getStaticProps (a # b # rest) =
       Inl (TypeError ''Cannot read properties of null (reading 'localeCompare')'')"
  by (simp add: achievements_getStaticProps_def v8_sort_simps date_cmp_def clean_achievement_def)

text \<open>C24: when the dates present sort below \<open>"null"\<close> and no achievement but the last
  is undated, the build succeeds, keeps every achievement, and lists every undated one
  first: an undated last achievement goes left at every comparison of the binary
  insertion and lands at the front of the page.\<close>

theorem achievements_last_undated_first:
  assumes "\<forall>a\<in>set xs. \<forall>d. date a = Some d \<longrightarrow> d < ''null''"
    and "\<forall>a\<in>set (butlast xs). date a \<noteq> None"
  shows "\<exists>ys. achievements_getStaticProps xs = Inr ys \<and> mset ys = mset (map clean_achievement xs) \<and>
     (\<forall>c\<in>set (tl ys). ca_date c \<noteq> None)"
proof -
  have "\<forall>c\<in>set (butlast (map clean_achievement xs)). ca_date c \<noteq> None"
  proof
    fix c assume "c \<in> set (butlast (map clean_achievement xs))"
    then have "c \<in> clean_achievement ` set (butlast xs)" by (metis map_butlast set_map)
    with assms(2) show "ca_date c \<noteq> None" by (auto simp: clean_achievement_def)
  qed
  with js_sort_bad_only_last[OF date_cmp_throws_on[OF clean_dates_below[OF assms(1)]]]
  show ?thesis unfolding achievements_getStaticProps_def by simp
qed

text \<open>C13: with exactly one undated achievement \<open>u\<close> and every other date below
  \<open>"null"\<close>, the build throws exactly when \<open>u\<close> is not last and either the achievements
  before it have strictly increasing dates (V8's run detection then takes \<open>u\<close> into a
  descending run and compares the next achievement with it) or a later achievement is
  dated after every achievement before it (its binary insertion then goes left down to
  \<open>u\<close>, which the sort keeps at the front).\<close>

theorem achievements_one_undated_fail_iff:
  assumes dated: "\<forall>a\<in>set pre \<union> set post. \<exists>d. date a = Some d \<and> d < ''null''"
    and undated: "date u = None"
  shows "(\<exists>e. achievements_getStaticProps (pre @ u # post) = Inl e) \<longleftrightarrow>
     post \<noteq> [] \<and> (sorted_wrt (\<lambda>a b. date a < date b) pre \<or>
       (\<exists>j<length post. \<forall>a\<in>set (pre @ take j post). date a < date (post ! j)))"
proof -
  let ?c = clean_achievement
  have ca_date_clean: "\<And>a. ca_date (?c a) = date a" by (simp add: clean_achievement_def)
  have dated': "\<forall>a\<in>set pre \<union> set post. date a \<noteq> None" using dated by blast
  have below: "\<forall>a\<in>set (pre @ u # post). \<forall>d. date a = Some d \<longrightarrow> d < ''null''"
  proof (intro ballI allI impI)
    fix a d assume a: "a \<in> set (pre @ u # post)" and d: "date a = Some d"
    with undated have "a \<in> set pre \<union> set post" by auto
    with dated obtain d' where "date a = Some d'" "d' < ''null''" by blast
    with d show "d < ''null''" by simp
  qed
  have T: "throws_on date_cmp (\<lambda>c. ca_date c = None) (set (map ?c pre @ ?c u # map ?c post))"
    using date_cmp_throws_on[OF clean_dates_below[OF below]] by (simp only: map_append list.map)
  have D: "cmp_descending_by date_cmp ca_date (set (map ?c pre) \<union> set (map ?c post))"
    using dated' by (intro date_cmp_descending) (auto simp: ca_date_clean)
  have G: "\<forall>y\<in>set (map ?c pre) \<union> set (map ?c post). \<not> ca_date y = None"
    using dated' by (auto simp: ca_date_clean)
  have "isl (js_sort date_cmp (map ?c pre @ ?c u # map ?c post)) \<longleftrightarrow>
      map ?c post \<noteq> [] \<and> (sorted_wrt (\<lambda>a b. ca_date a < ca_date b) (map ?c pre) \<or>
        (\<exists>j<length (map ?c post). \<forall>y\<in>set (map ?c pre @ take j (map ?c post)).
           ca_date y < ca_date (map ?c post ! j)))"
    using undated by (intro js_sort_one_bad_iff[OF T D _ G]) (simp add: ca_date_clean)
  moreover have "sorted_wrt (\<lambda>a b. ca_date a < ca_date b) (map ?c pre) \<longleftrightarrow>
      sorted_wrt (\<lambda>a b. date a < date b) pre"
    by (simp add: sorted_wrt_map ca_date_clean)
  moreover have "(\<exists>j<length (map ?c post). \<forall>y\<in>set (map ?c pre @ take j (map ?c post)).
        ca_date y < ca_date (map ?c post ! j)) \<longleftrightarrow>
      (\<exists>j<length post. \<forall>a\<in>set (pre @ take j post). date a < date (post ! j))"
  proof -
    have "\<And>j. j < length post \<Longrightarrow>
        (\<forall>y\<in>set (map ?c pre @ take j (map ?c post)). ca_date y < ca_date (map ?c post ! j)) \<longleftrightarrow>
        (\<forall>a\<in>set (pre @ take j post). date a < date (post ! j))"
      by (force simp: take_map ca_date_clean)
    then show ?thesis unfolding length_map by blast
  qed
  moreover have "(\<exists>e. achievements_getStaticProps (pre @ u # post) = Inl e) \<longleftrightarrow>
      isl (js_sort date_cmp (map ?c pre @ ?c u # map ?c post))"
    by (cases "js_sort date_cmp (map ?c pre @ ?c u # map ?c post)")
      (simp_all add: achievements_getStaticProps_def)
  ultimately show ?thesis by simp
qed

text \<open>C31: whenever the build succeeds, for content whose dates sort below
  \<open>"null"\<close>, the page lists the undated achievement first (there is at most one), then
  the dated ones from the latest date to the earliest, achievements of the same date in
  content order. This is the whole output of a successful build, whichever comparisons
  V8's run detection and binary insertion made.\<close>

theorem achievements_success_order:
  assumes below: "\<forall>a\<in>set xs. \<forall>d. date a = Some d \<longrightarrow> d < ''null''"
    and ok: "achievements_getStaticProps xs = Inr ys"
  shows "ys = filter (\<lambda>c. ca_date c = None) (map clean_achievement xs) @
     rev (sort_key ca_date (rev (filter (\<lambda>c. ca_date c \<noteq> None) (map clean_achievement xs))))"
proof -
  define cs where "cs = map clean_achievement xs"
  have T: "throws_on date_cmp (\<lambda>c. ca_date c = None) (set cs)"
    unfolding cs_def by (rule date_cmp_throws_on[OF clean_dates_below[OF below]])
  have sorted: "js_sort date_cmp cs = Inr ys"
    using ok by (simp add: achievements_getStaticProps_def cs_def)
  consider (none) "filter (\<lambda>c. ca_date c = None) cs = []"
    | (one) u where "filter (\<lambda>c. ca_date c = None) cs = [u]"
    | (more) "2 \<le> length (filter (\<lambda>c. ca_date c = None) cs)"
    by (cases "filter (\<lambda>c. ca_date c = None) cs" rule: remdups_adj.cases) auto
  then show ?thesis
  proof cases
    case none
    then have "\<forall>c\<in>set cs. ca_date c \<noteq> None" by (simp add: filter_empty_conv)
    then have "js_sort date_cmp cs = Inr (rev (sort_key ca_date (rev cs)))"
      by (intro js_sort_descending date_cmp_descending)
    moreover have "filter (\<lambda>c. ca_date c \<noteq> None) cs = cs"
      using \<open>\<forall>c\<in>set cs. ca_date c \<noteq> None\<close> by simp
    ultimately show ?thesis using sorted none by (simp add: cs_def)
  next
    case (one u)
    from filter_eq_ConsD[OF one] obtain pre post where cs: "cs = pre @ u # post"
      and pre: "\<forall>y\<in>set pre. ca_date y \<noteq> None" and u: "ca_date u = None"
      and post0: "filter (\<lambda>c. ca_date c = None) post = []"
      by auto
    from post0 have post: "\<forall>y\<in>set post. ca_date y \<noteq> None" by (simp add: filter_empty_conv)
    have D: "cmp_descending_by date_cmp ca_date (set pre \<union> set post)"
      using pre post by (intro date_cmp_descending) auto
    have G: "\<forall>y\<in>set pre \<union> set post. \<not> ca_date y = None" using pre post by auto
    have "ys = u # rev (sort_key ca_date (rev (pre @ post)))"
      using js_sort_one_bad_Inr[OF T[unfolded cs] D u G] sorted by (simp add: cs)
    moreover have "filter (\<lambda>c. ca_date c \<noteq> None) cs = pre @ post"
      using pre post u by (simp add: cs)
    ultimately show ?thesis using one by (simp add: cs_def[symmetric])
  next
    case more
    from js_sort_two_bad[OF T more] sorted show ?thesis by simp
  qed
qed

subsection \<open>The properties on concrete inputs\<close>

theorem achievements_sorted_by_date_witness:
  "\<exists>ys. achievements_getStaticProps
          [demo_achievement ''a1'' (Some ''2021-11-20''), demo_achievement ''a2'' (Some ''2022-05-01'')] = Inr ys \<and>
     sorted_wrt (\<lambda>a b. ca_date b \<le> ca_date a) ys"
  using achievements_sorted_by_date[of
      "[demo_achievement ''a1'' (Some ''2021-11-20''), demo_achievement ''a2'' (Some ''2022-05-01'')]"]
  by auto

theorem achievements_undated_fail_witness:
  "achievements_getStaticProps
      [demo_achievement ''a1'' (Some ''2021-11-20''), demo_achievement ''a2'' None,
       demo_achievement ''a3'' (Some ''2022-05-01''), demo_achievement ''a4'' None] =
     Inl (TypeError ''Cannot read properties of null (reading 'localeCompare')'')"
  by (rule achievements_undated_fail) (simp_all add: less_char_def)

theorem achievements_null_date_first_witness:
  "achievements_getStaticProps [demo_achievement ''a1'' (Some ''2022-05-01''), demo_achievement ''a2'' None]
     = Inr [clean_achievement (demo_achievement ''a2'' None),
            clean_achievement (demo_achievement ''a1'' (Some ''2022-05-01''))]"
proof (rule achievements_null_date_first)
  show "''2022-05-01'' < ''null''" by (simp add: less_char_def)
qed simp_all

theorem achievements_build_one_card_each_witness:
  "mset (map card_key (AchievementsPage [clean_achievement (demo_achievement ''a2'' None),
            clean_achievement (demo_achievement ''a1'' (Some ''2022-05-01''))]))
     = mset [''a1'', ''a2'']"
proof -
  have "achievements_build [demo_achievement ''a1'' (Some ''2022-05-01''), demo_achievement ''a2'' None]
      = Inr (AchievementsPage [clean_achievement (demo_achievement ''a2'' None),
            clean_achievement (demo_achievement ''a1'' (Some ''2022-05-01''))])"
    by (simp add: achievements_build_def achievements_getStaticProps_def v8_sort_simps date_cmp_def
        clean_achievement_def)
  from achievements_build_one_card_each[OF this] show ?thesis by simp
qed

theorem achievements_first_undated_fails_witness:
  "achievements_getStaticProps
      [demo_achievement ''a1'' None, demo_achievement ''a2'' (Some ''2022-05-01''),
       demo_achievement ''a3'' (Some ''2021-11-20'')] =
     Inl (TypeError ''Cannot read properties of null (reading 'localeCompare')'')"
  by (rule achievements_first_undated_fails) simp

theorem achievements_last_undated_first_witness:
  "\<exists>ys. achievements_getStaticProps
      [demo_achievement ''a1'' (Some ''2021-11-20''), demo_achievement ''a2'' (Some ''2022-05-01''),
       demo_achievement ''a3'' None] = Inr ys \<and>
     hd ys = clean_achievement (demo_achievement ''a3'' None)"
proof -
  obtain ys where ys: "achievements_getStaticProps
      [demo_achievement ''a1'' (Some ''2021-11-20''), demo_achievement ''a2'' (Some ''2022-05-01''),
       demo_achievement ''a3'' None] = Inr ys"
    and m: "mset ys = mset (map clean_achievement
      [demo_achievement ''a1'' (Some ''2021-11-20''), demo_achievement ''a2'' (Some ''2022-05-01''),
       demo_achievement ''a3'' None])"
    and tl: "\<forall>c\<in>set (tl ys). ca_date c \<noteq> None"
    using achievements_last_undated_first[of "[demo_achievement ''a1'' (Some ''2021-11-20''),
        demo_achievement ''a2'' (Some ''2022-05-01''), demo_achievement ''a3'' None]"]
    by (auto simp: less_char_def)
  have "clean_achievement (demo_achievement ''a3'' None) \<in> set ys"
    using arg_cong[OF m, of set_mset] by simp
  with tl have "hd ys = clean_achievement (demo_achievement ''a3'' None)"
    by (cases ys) (auto simp: clean_achievement_def)
  with ys show ?thesis by blast
qed

theorem achievements_one_undated_fail_iff_witness:
  "\<exists>e. achievements_getStaticProps
      [demo_achievement ''a1'' (Some ''2022''), demo_achievement ''a2'' (Some ''2021''),
       demo_achievement ''a3'' None, demo_achievement ''a4'' (Some ''2023'')] = Inl e"
  using achievements_one_undated_fail_iff[of
      "[demo_achievement ''a1'' (Some ''2022''), demo_achievement ''a2'' (Some ''2021'')]"
      "[demo_achievement ''a4'' (Some ''2023'')]" "demo_achievement ''a3'' None"]
  by (simp add: less_char_def)

theorem achievements_success_order_witness:
  "[clean_achievement (demo_achievement ''a3'' None), clean_achievement (demo_achievement ''a1'' (Some ''2022'')),
    clean_achievement (demo_achievement ''a4'' (Some ''2021-06'')), clean_achievement (demo_achievement ''a2'' (Some ''2021''))] =
   filter (\<lambda>c. ca_date c = None) (map clean_achievement
      [demo_achievement ''a1'' (Some ''2022''), demo_achievement ''a2'' (Some ''2021''),
       demo_achievement ''a3'' None, demo_achievement ''a4'' (Some ''2021-06'')]) @
   rev (sort_key ca_date (rev (filter (\<lambda>c. ca_date c \<noteq> None) (map clean_achievement
      [demo_achievement ''a1'' (Some ''2022''), demo_achievement ''a2'' (Some ''2021''),
       demo_achievement ''a3'' None, demo_achievement ''a4'' (Some ''2021-06'')]))))"
  using achievements_success_order[OF _ conjunct1[OF achievements_undated_middle_depends]]
  by (simp add: less_char_def)

end
