(* ===== verification/Skills.thy ===== *)
theory Skills
  imports Prelude
begin

text \<open>
  The skill pages, \<open>src/pages/skills/[slug].tsx\<close>, fed by the headless content API
  (GraphCMS, queried through Apollo's \<open>graphcmsClient.query\<close>).
  \<^item> \<open>getStaticPaths\<close> asks for the slugs of all skills (query \<open>PageSkillPaths\<close>) and
    returns one path per slug with \<open>fallback: false\<close>.
  \<^item> \<open>getStaticProps\<close> asks for the skill whose slug is the path's (query
    \<open>PageSkill\<close>, selecting \<open>iconName id link name description\<close>) and passes
    \<open>data.skill\<close> on as the prop \<open>skill\<close>; the API answers \<open>null\<close> for an unknown slug,
    and the code passes that \<open>null\<close> on.
  \<^item> \<open>SkillPage\<close> renders the icon, the name, the description and the link; it reads
    \<open>skill.iconName\<close> first, which throws on \<open>null\<close>.
  The API is a record of its content and whether it can be reached; an unreachable API
  rejects every query. Next.js's static generation is modelled from its documented
  behaviour (the spec's section 6): the build runs \<open>getStaticProps\<close> and the page for
  every path and fails when one of them fails. A request for a slug outside the paths is
  served according to the \<open>fallback\<close> that \<open>getStaticPaths\<close> returned: with
  \<open>false\<close> it is answered with the 404 page; with \<open>true\<close> the page is generated on
  that request, running \<open>getStaticProps\<close> and the component, and an error there is a
  server error.
\<close>

record skill =
  skill_slug :: string
  skill_id :: string
  iconName :: string
  skill_link :: string
  skill_name :: string
  skill_description :: string

record graphcms =
  cms_reachable :: bool
  cms_skills :: "skill list"

record page_skill =
  ps_iconName :: string
  ps_id :: string
  ps_link :: string
  ps_name :: string
  ps_description :: string

definition select_page_skill :: "skill \<Rightarrow> page_skill" where
  "select_page_skill k =
     \<lparr>ps_iconName = iconName k, ps_id = skill_id k, ps_link = skill_link k,
      ps_name = skill_name k, ps_description = skill_description k\<rparr>"

definition query_PageSkill :: "graphcms \<Rightarrow> string \<Rightarrow> page_skill option js_result" where
  "query_PageSkill cms s =
     (if cms_reachable cms
      then Inr (map_option select_page_skill (find (\<lambda>k. skill_slug k = s) (cms_skills cms)))
      else Inl (Rejected ''Network error: GraphCMS unreachable''))"

definition query_PageSkillPaths :: "graphcms \<Rightarrow> string list js_result" where
  "query_PageSkillPaths cms =
     (if cms_reachable cms then Inr (map skill_slug (cms_skills cms))
      else Inl (Rejected ''Network error: GraphCMS unreachable''))"

record static_paths =
  paths :: "string list"
  fallback :: bool

definition skills_getStaticPaths :: "graphcms \<Rightarrow> static_paths js_result" where
  "skills_getStaticPaths cms =
     js_map (\<lambda>slugs. \<lparr>paths = slugs, fallback = False\<rparr>) (query_PageSkillPaths cms)"

definition skills_getStaticProps :: "graphcms \<Rightarrow> string \<Rightarrow> page_skill option js_result" where
  "skills_getStaticProps cms slug = js_map (\<lambda>skill. skill) (query_PageSkill cms slug)"

record skill_view =
  icon :: string
  view_heading :: string
  view_text :: string
  view_href :: string
  view_link_text :: string

definition SkillPage :: "page_skill option \<Rightarrow> skill_view js_result" where
  "SkillPage skill =
     (case skill of
        None \<Rightarrow> Inl (TypeError ''Cannot read properties of null (reading 'iconName')'')
      | Some s \<Rightarrow> Inr \<lparr>icon = ps_iconName s, view_heading = ps_name s,
                       view_text = ps_description s, view_href = ps_link s,
                       view_link_text = ps_link s\<rparr>)"

subsection \<open>Static generation and serving\<close>

definition build_skill_page :: "graphcms \<Rightarrow> string \<Rightarrow> skill_view js_result" where
  "build_skill_page cms slug = js_bind (skills_getStaticProps cms slug) SkillPage"

record skill_site =
  site_pages :: "(string \<times> skill_view) list"
  site_fallback :: bool

definition skills_build :: "graphcms \<Rightarrow> skill_site js_result" where
  "skills_build cms =
     js_bind (skills_getStaticPaths cms) (\<lambda>sp.
       js_map (\<lambda>pages. \<lparr>site_pages = pages, site_fallback = fallback sp\<rparr>)
         (js_all (map (\<lambda>slug. js_map (Pair slug) (build_skill_page cms slug)) (paths sp))))"

datatype 'a response = Page 'a | NotFound | ServerError js_error

definition serve_skill :: "graphcms \<Rightarrow> skill_site \<Rightarrow> string \<Rightarrow> skill_view response" where
  "serve_skill cms site slug =
     (case map_of (site_pages site) slug of
        Some v \<Rightarrow> Page v
      | None \<Rightarrow>
          if site_fallback site
          then (case build_skill_page cms slug of Inl e \<Rightarrow> ServerError e | Inr v \<Rightarrow> Page v)
          else NotFound)"

text \<open>What the page shows for a skill of the content.\<close>

abbreviation skill_view_of :: "skill \<Rightarrow> skill_view" where
  "skill_view_of k \<equiv>
     \<lparr>icon = iconName k, view_heading = skill_name k, view_text = skill_description k,
      view_href = skill_link k, view_link_text = skill_link k\<rparr>"

abbreviation demo_skill :: "string \<Rightarrow> string \<Rightarrow> skill" where
  "demo_skill s n \<equiv>
     \<lparr>skill_slug = s, skill_id = ''id-'' @ s, iconName = n, skill_link = ''https://'' @ s @ ''.dev'',
      skill_name = n, skill_description = ''Used daily''\<rparr>"

abbreviation demo_cms :: graphcms where
  "demo_cms \<equiv> \<lparr>cms_reachable = True,
     cms_skills = [demo_skill ''typescript'' ''TypeScript'', demo_skill ''react'' ''React'']\<rparr>"

subsection \<open>Lemmas\<close>

lemma find_first_slug:
  "k \<in> set ks \<Longrightarrow> \<exists>k'. find (\<lambda>x. skill_slug x = skill_slug k) ks = Some k' \<and> skill_slug k' = skill_slug k"
  by (induction ks) auto

lemma find_distinct_slug:
  "distinct (map skill_slug ks) \<Longrightarrow> k \<in> set ks \<Longrightarrow> find (\<lambda>x. skill_slug x = skill_slug k) ks = Some k"
  by (induction ks) (auto simp: image_iff)

lemma find_unknown_slug:
  "s \<notin> set (map skill_slug ks) \<Longrightarrow> find (\<lambda>x. skill_slug x = s) ks = None"
  by (induction ks) auto

lemma build_skill_page_found:
  "cms_reachable cms \<Longrightarrow> find (\<lambda>k. skill_slug k = s) (cms_skills cms) = Some k \<Longrightarrow>
     build_skill_page cms s = Inr (skill_view_of k)"
  by (simp add: build_skill_page_def skills_getStaticProps_def query_PageSkill_def SkillPage_def
      select_page_skill_def)

lemma skills_build_reachable:
  "cms_reachable cms \<Longrightarrow>
     skills_build cms =
       Inr \<lparr>site_pages = map (\<lambda>k. (skill_slug k,
                 skill_view_of (the (find (\<lambda>x. skill_slug x = skill_slug k) (cms_skills cms)))))
            (cms_skills cms), site_fallback = False\<rparr>"
proof -
  assume up: "cms_reachable cms"
  have "\<forall>k\<in>set (cms_skills cms).
      js_map (Pair (skill_slug k)) (build_skill_page cms (skill_slug k))
      = Inr (skill_slug k, skill_view_of (the (find (\<lambda>x. skill_slug x = skill_slug k) (cms_skills cms))))"
  proof
    fix k assume "k \<in> set (cms_skills cms)"
    then obtain k' where "find (\<lambda>x. skill_slug x = skill_slug k) (cms_skills cms) = Some k'"
      using find_first_slug by blast
    with up show "js_map (Pair (skill_slug k)) (build_skill_page cms (skill_slug k))
      = Inr (skill_slug k, skill_view_of (the (find (\<lambda>x. skill_slug x = skill_slug k) (cms_skills cms))))"
      by (simp add: build_skill_page_found)
  qed
  then have "js_all (map (\<lambda>k. js_map (Pair (skill_slug k)) (build_skill_page cms (skill_slug k)))
      (cms_skills cms)) = Inr (map (\<lambda>k. (skill_slug k,
        skill_view_of (the (find (\<lambda>x. skill_slug x = skill_slug k) (cms_skills cms))))) (cms_skills cms))"
    by (rule js_all_map_Inr_cong)
  then show ?thesis
    using up by (simp add: skills_build_def skills_getStaticPaths_def query_PageSkillPaths_def o_def)
qed

lemma skills_build_Inr:
  "skills_build cms = Inr site \<Longrightarrow> cms_reachable cms \<and>
     site = \<lparr>site_pages = map (\<lambda>k. (skill_slug k,
               skill_view_of (the (find (\<lambda>x. skill_slug x = skill_slug k) (cms_skills cms)))))
             (cms_skills cms), site_fallback = False\<rparr>"
proof (cases "cms_reachable cms")
  case True
  assume "skills_build cms = Inr site"
  with True show ?thesis by (simp add: skills_build_reachable)
next
  case False
  assume "skills_build cms = Inr site"
  with False show ?thesis by (simp add: skills_build_def skills_getStaticPaths_def query_PageSkillPaths_def)
qed

subsection \<open>Properties\<close>

text \<open>C15: when the content API is reachable, the build generates a page for every skill
  of the API, one per path, and none of them fails.\<close>

theorem skills_build_succeeds:
  "cms_reachable cms \<Longrightarrow>
     \<exists>site. skills_build cms = Inr site \<and> map fst (site_pages site) = map skill_slug (cms_skills cms)"
  by (simp add: skills_build_reachable o_def)

text \<open>C16: when the API's slugs are distinct (the slug is the key of the \<open>where\<close>
  filter), the page served for a skill's slug shows that skill's icon, name,
  description and link (paths and props agree).\<close>

theorem skills_page_shows_skill:
  "cms_reachable cms \<Longrightarrow> distinct (map skill_slug (cms_skills cms)) \<Longrightarrow>
     k \<in> set (cms_skills cms) \<Longrightarrow> skills_build cms = Inr site \<Longrightarrow>
     serve_skill cms site (skill_slug k) = Page (skill_view_of k)"
proof -
  assume up: "cms_reachable cms" and dist: "distinct (map skill_slug (cms_skills cms))"
    and k: "k \<in> set (cms_skills cms)" and built: "skills_build cms = Inr site"
  let ?page = "\<lambda>k. (skill_slug k,
      skill_view_of (the (find (\<lambda>x. skill_slug x = skill_slug k) (cms_skills cms))))"
  define pages where "pages = site_pages site"
  from skills_build_Inr[OF built] have pages: "pages = map ?page (cms_skills cms)"
    by (simp add: pages_def)
  have "distinct (map fst pages)" using dist by (simp add: pages o_def)
  moreover have "(skill_slug k, skill_view_of k) \<in> set pages"
    using k find_distinct_slug[OF dist k] by (force simp: pages)
  ultimately have "map_of pages (skill_slug k) = Some (skill_view_of k)"
    by (rule map_of_is_SomeI)
  then show ?thesis by (simp add: serve_skill_def pages_def)
qed

text \<open>C17: a slug the API does not list is answered with the 404 page: the build
  generates no page for it, and \<open>getStaticPaths\<close> returns \<open>fallback: false\<close>, so the
  page is not generated on request either (spec section 8, last property; with
  \<open>fallback: true\<close> the request would run \<open>getStaticProps\<close> and the component and end
  in a server error, C18).\<close>

theorem skills_unknown_slug_not_found:
  "s \<notin> set (map skill_slug (cms_skills cms)) \<Longrightarrow> skills_build cms = Inr site \<Longrightarrow>
     serve_skill cms site s = NotFound"
proof -
  assume s: "s \<notin> set (map skill_slug (cms_skills cms))" and built: "skills_build cms = Inr site"
  from skills_build_Inr[OF built] have site: "site = \<lparr>site_pages = map (\<lambda>k. (skill_slug k,
      skill_view_of (the (find (\<lambda>x. skill_slug x = skill_slug k) (cms_skills cms))))) (cms_skills cms),
      site_fallback = False\<rparr>" by blast
  then have "map fst (site_pages site) = map skill_slug (cms_skills cms)" by (simp add: o_def)
  with s have "s \<notin> fst ` set (site_pages site)" by (metis list.set_map)
  then have "map_of (site_pages site) s = None" by (simp add: map_of_eq_None_iff)
  then show ?thesis using site by (simp add: serve_skill_def)
qed

text \<open>C18: generating the page of a slug the API does not know throws during the
  build: the query answers \<open>null\<close>, \<open>getStaticProps\<close> passes it on (no
  \<open>notFound\<close>), and the page reads \<open>skill.iconName\<close>.\<close>

theorem skills_unknown_slug_build_fails:
  "cms_reachable cms \<Longrightarrow> s \<notin> set (map skill_slug (cms_skills cms)) \<Longrightarrow>
     build_skill_page cms s = Inl (TypeError ''Cannot read properties of null (reading 'iconName')'')"
  by (simp add: build_skill_page_def skills_getStaticProps_def query_PageSkill_def
      find_unknown_slug SkillPage_def)

text \<open>C19: an unreachable content API fails the build of the skill pages with the
  query's rejection: no page is generated, not even a partial list.\<close>

theorem skills_unreachable_fails:
  "\<not> cms_reachable cms \<Longrightarrow>
     skills_build cms = Inl (Rejected ''Network error: GraphCMS unreachable'')"
  by (simp add: skills_build_def skills_getStaticPaths_def query_PageSkillPaths_def)

text \<open>C27: without assuming distinct slugs, every page the site serves for a slug is the
  page of the first skill of the API with that slug: the build generates one path per
  skill, duplicates included, every path of a slug renders the same first match of the
  \<open>where\<close> filter, and a later skill that repeats a slug is never shown.\<close>

theorem skills_served_first_match:
  "skills_build cms = Inr site \<Longrightarrow> serve_skill cms site s = Page v \<Longrightarrow>
     \<exists>k. find (\<lambda>x. skill_slug x = s) (cms_skills cms) = Some k \<and> v = skill_view_of k"
proof -
  assume built: "skills_build cms = Inr site" and served: "serve_skill cms site s = Page v"
  define pages where "pages = site_pages site"
  from skills_build_Inr[OF built] have pages: "pages = map (\<lambda>k. (skill_slug k,
      skill_view_of (the (find (\<lambda>x. skill_slug x = skill_slug k) (cms_skills cms))))) (cms_skills cms)"
    and fb: "\<not> site_fallback site"
    by (simp_all add: pages_def)
  from served fb have "(s, v) \<in> set pages"
    by (auto simp: serve_skill_def pages_def split: option.splits dest: map_of_SomeD)
  then obtain k0 where k0: "k0 \<in> set (cms_skills cms)" "s = skill_slug k0"
      and v: "v = skill_view_of (the (find (\<lambda>x. skill_slug x = s) (cms_skills cms)))"
    by (auto simp: pages)
  obtain k where "find (\<lambda>x. skill_slug x = s) (cms_skills cms) = Some k"
    using find_first_slug[OF k0(1)] k0(2) by blast
  with v show ?thesis by simp
qed

subsection \<open>The properties on concrete inputs\<close>

theorem skills_build_succeeds_witness:
  "\<exists>site. skills_build demo_cms = Inr site \<and> map fst (site_pages site) = [''typescript'', ''react'']"
  using skills_build_succeeds[of demo_cms] by simp

theorem skills_page_shows_skill_witness:
  "serve_skill demo_cms
      \<lparr>site_pages = [(''typescript'', skill_view_of (demo_skill ''typescript'' ''TypeScript'')),
                     (''react'', skill_view_of (demo_skill ''react'' ''React''))], site_fallback = False\<rparr>
      ''react'' = Page (skill_view_of (demo_skill ''react'' ''React''))"
proof -
  have built: "skills_build demo_cms =
      Inr \<lparr>site_pages = [(''typescript'', skill_view_of (demo_skill ''typescript'' ''TypeScript'')),
                          (''react'', skill_view_of (demo_skill ''react'' ''React''))], site_fallback = False\<rparr>"
    by (simp add: skills_build_reachable)
  show ?thesis
    using skills_page_shows_skill[of demo_cms "demo_skill ''react'' ''React''", OF _ _ _ built]
    by simp
qed

theorem skills_unknown_slug_not_found_witness:
  "serve_skill demo_cms
      \<lparr>site_pages = [(''typescript'', skill_view_of (demo_skill ''typescript'' ''TypeScript'')),
                     (''react'', skill_view_of (demo_skill ''react'' ''React''))], site_fallback = False\<rparr>
      ''haskell'' = NotFound"
proof -
  have built: "skills_build demo_cms =
      Inr \<lparr>site_pages = [(''typescript'', skill_view_of (demo_skill ''typescript'' ''TypeScript'')),
                          (''react'', skill_view_of (demo_skill ''react'' ''React''))], site_fallback = False\<rparr>"
    by (simp add: skills_build_reachable)
  show ?thesis
    using skills_unknown_slug_not_found[of "''haskell''" demo_cms, OF _ built] by simp
qed

theorem skills_unknown_slug_build_fails_witness:
  "build_skill_page demo_cms ''haskell'' =
     Inl (TypeError ''Cannot read properties of null (reading 'iconName')'')"
  by (rule skills_unknown_slug_build_fails) simp_all

theorem skills_unreachable_fails_witness:
  "skills_build (demo_cms\<lparr>cms_reachable := False\<rparr>) =
     Inl (Rejected ''Network error: GraphCMS unreachable'')"
  by (rule skills_unreachable_fails) simp

theorem skills_served_first_match_witness:
  "\<exists>site v. skills_build (demo_cms\<lparr>cms_skills := [demo_skill ''react'' ''React'', demo_skill ''react'' ''Preact'']\<rparr>) = Inr site \<and>
     serve_skill (demo_cms\<lparr>cms_skills := [demo_skill ''react'' ''React'', demo_skill ''react'' ''Preact'']\<rparr>)
       site ''react'' = Page v \<and> view_heading v = ''React''"
proof -
  let ?cms = "demo_cms\<lparr>cms_skills := [demo_skill ''react'' ''React'', demo_skill ''react'' ''Preact'']\<rparr>"
  let ?pages = "\<lparr>site_pages = [(''react'', skill_view_of (demo_skill ''react'' ''React'')),
                 (''react'', skill_view_of (demo_skill ''react'' ''React''))], site_fallback = False\<rparr>"
  have built: "skills_build ?cms = Inr ?pages"
    by (simp add: skills_build_reachable)
  have served: "serve_skill ?cms ?pages ''react'' = Page (skill_view_of (demo_skill ''react'' ''React''))"
    by (simp add: serve_skill_def)
  from skills_served_first_match[OF built served] built served show ?thesis by auto
qed

end
