(* ===== verification/ParallelPreview.thy ===== *)
theory ParallelPreview
  imports Projects
begin

text \<open>
  The spec's licence to parallelise the build loop of \<open>src/pages/projects/index.tsx\<close>
  (spec section 9): each project's preview lookup becomes an asynchronous task, the tasks
  run interleaved, and their results are joined as \<open>Promise.all\<close> joins them. A task
  is the loop body \<^const>\<open>previewUrl_step\<close> split at its \<open>await\<close>: it either finishes at
  once (no image, or a URL that is not absolute) or sends its URL to the preview service
  and later resumes with the service's answer. The state is the list of task states, the
  URLs sent so far in the order they went out, and the first rejection, which settles the
  join early as \<open>Promise.all\<close> does. \<open>par_step\<close> is one step of one task, chosen
  freely: every interleaving of the tasks is a run of the relation. The repository's code
  runs the loop sequentially; this theory models the spec's alternative and proves it
  equivalent to the code's loop.
\<close>

datatype task =
    Todo
  | Awaiting string  \<comment> \<open>the request for this URL is out\<close>
  | Finished "project_with_placeholder js_result"

record par_state =
  tasks :: "task list"
  sent :: "string list"
  first_rejection :: "js_error option"

definition par_init :: "project list \<Rightarrow> par_state" where
  "par_init ps = \<lparr>tasks = replicate (length ps) Todo, sent = [], first_rejection = None\<rparr>"

definition join_rejection :: "js_error option \<Rightarrow> 'a js_result \<Rightarrow> js_error option" where
  "join_rejection f r = (case f of Some e \<Rightarrow> Some e | None \<Rightarrow> (case r of Inl e \<Rightarrow> Some e | Inr _ \<Rightarrow> None))"

definition finish_task :: "par_state \<Rightarrow> nat \<Rightarrow> project_with_placeholder js_result \<Rightarrow> par_state" where
  "finish_task s i r =
     s\<lparr>tasks := (tasks s)[i := Finished r], first_rejection := join_rejection (first_rejection s) r\<rparr>"

inductive par_step :: "preview_service \<Rightarrow> project list \<Rightarrow> par_state \<Rightarrow> par_state \<Rightarrow> bool"
  for svc ps where
  start_call:
    "i < length (tasks s) \<Longrightarrow> tasks s ! i = Todo \<Longrightarrow> snd (previewUrl_step svc (ps ! i) []) = [u] \<Longrightarrow>
       par_step svc ps s (s\<lparr>tasks := (tasks s)[i := Awaiting u], sent := sent s @ [u]\<rparr>)"
| start_local:
    "i < length (tasks s) \<Longrightarrow> tasks s ! i = Todo \<Longrightarrow> snd (previewUrl_step svc (ps ! i) []) = [] \<Longrightarrow>
       par_step svc ps s (finish_task s i (js_map (with_placeholder (ps ! i)) (fst (previewUrl_step svc (ps ! i) []))))"
| resume:
    "i < length (tasks s) \<Longrightarrow> tasks s ! i = Awaiting u \<Longrightarrow>
       par_step svc ps s (finish_task s i (js_map (\<lambda>v. with_placeholder (ps ! i) (Some v)) (getPreviewImageUrl svc u)))"

inductive_cases par_stepE: "par_step svc ps s s'"

fun task_finished :: "task \<Rightarrow> bool" where
  "task_finished (Finished r) = True"
| "task_finished _ = False"

fun task_value :: "task \<Rightarrow> project_with_placeholder option" where
  "task_value (Finished (Inr q)) = Some q"
| "task_value _ = None"

text \<open>The join: settled with the first rejection as soon as there is one, otherwise with
  the list of values once every task has finished.\<close>

definition par_outcome :: "par_state \<Rightarrow> project_with_placeholder list js_result option" where
  "par_outcome s =
     (case first_rejection s of
        Some e \<Rightarrow> Some (Inl e)
      | None \<Rightarrow> if list_all task_finished (tasks s) then Some (Inr (map (the \<circ> task_value) (tasks s)))
                else None)"

definition par_reach :: "preview_service \<Rightarrow> project list \<Rightarrow> par_state \<Rightarrow> bool" where
  "par_reach svc ps s = (par_step svc ps)\<^sup>*\<^sup>* (par_init ps) s"

subsection \<open>The invariant\<close>

fun task_ok :: "preview_service \<Rightarrow> project \<Rightarrow> task \<Rightarrow> bool" where
  "task_ok svc p Todo = True"
| "task_ok svc p (Awaiting u) = (preview_requests [p] = [u])"
| "task_ok svc p (Finished r) = (r = resolve_project svc p)"

fun task_sent :: "project \<Rightarrow> task \<Rightarrow> string list" where
  "task_sent p Todo = []"
| "task_sent p _ = preview_requests [p]"

fun task_rejected :: "task \<Rightarrow> bool" where
  "task_rejected (Finished (Inl e)) = True"
| "task_rejected _ = False"

fun rejection_ok :: "js_error option \<Rightarrow> task list \<Rightarrow> bool" where
  "rejection_ok None ts = (\<not> list_ex task_rejected ts)"
| "rejection_ok (Some e) ts = (Finished (Inl e) \<in> set ts)"

definition par_inv :: "preview_service \<Rightarrow> project list \<Rightarrow> par_state \<Rightarrow> bool" where
  "par_inv svc ps s \<longleftrightarrow>
     list_all2 (task_ok svc) ps (tasks s) \<and>
     mset (sent s) = mset (concat (map2 task_sent ps (tasks s))) \<and>
     rejection_ok (first_rejection s) (tasks s)"

text \<open>A preview service that answers every URL, used to run the tasks on a concrete input.\<close>

abbreviation demo_svc :: preview_service where
  "demo_svc \<equiv> \<lambda>u. Inr (Some ''data:image/webp;base64,UklGRg'')"

subsection \<open>A task is the loop body split at its await\<close>

lemma previewUrl_step_sent: "snd (previewUrl_step svc p []) = preview_requests [p]"
  using previewUrl_step_split[of svc p "[]"] by (simp add: prod_eq_iff)

lemma preview_requests_single: "preview_requests [p] = [] \<or> (\<exists>u. preview_requests [p] = [u])"
  by (simp add: preview_requests_def split: option.split)

lemma resume_resolves:
  "preview_requests [p] = [u] \<Longrightarrow>
     js_map (\<lambda>v. with_placeholder p (Some v)) (getPreviewImageUrl svc u) = resolve_project svc p"
  by (auto simp: preview_requests_def resolve_project_cases split: option.splits if_splits)

lemma task_rejected_iff: "task_rejected t \<longleftrightarrow> (\<exists>e. t = Finished (Inl e))"
  by (cases t rule: task_rejected.cases) simp_all

subsection \<open>Each step keeps the invariant and decreases the measure\<close>

lemma par_inv_length: "par_inv svc ps s \<Longrightarrow> length (tasks s) = length ps"
  by (auto simp: par_inv_def dest: list_all2_lengthD)

lemma par_inv_init: "par_inv svc ps (par_init ps)"
  by (induction ps) (simp_all add: par_inv_def par_init_def)

lemma rejection_ok_keep:
  assumes "rejection_ok f ts" "\<not> task_finished (ts ! i)" "\<not> task_finished t"
  shows "rejection_ok f (ts[i := t])"
proof (cases f)
  case None
  have "\<not> task_rejected t" using assms(3) by (auto simp: task_rejected_iff)
  then show ?thesis using assms(1) None set_update_subset_insert[of ts i t]
    by (auto simp: list_ex_iff)
next
  case (Some e)
  have "ts ! i \<noteq> Finished (Inl e)" using assms(2) by auto
  then show ?thesis using assms(1) Some by (simp add: in_set_update_other)
qed

lemma rejection_ok_finish:
  assumes "rejection_ok f ts" "i < length ts" "\<not> task_finished (ts ! i)"
  shows "rejection_ok (join_rejection f r) (ts[i := Finished r])"
proof (cases f)
  case None
  then show ?thesis using assms(1,2) set_update_subset_insert[of ts i "Finished r"]
    by (cases r) (auto simp: join_rejection_def list_ex_iff set_update_memI)
next
  case (Some e)
  have "ts ! i \<noteq> Finished (Inl e)" using assms(3) by auto
  then show ?thesis using assms(1) Some by (simp add: join_rejection_def in_set_update_other)
qed

lemma finish_task_inv:
  assumes inv: "par_inv svc ps s" and i: "i < length (tasks s)"
    and open_task: "\<not> task_finished (tasks s ! i)"
    and sent_same: "task_sent (ps ! i) (tasks s ! i) = preview_requests [ps ! i]"
    and r: "r = resolve_project svc (ps ! i)"
  shows "par_inv svc ps (finish_task s i r)"
proof -
  let ?ts = "tasks s" and ?new = "Finished r"
  have len: "length ps = length ?ts" using par_inv_length[OF inv] by simp
  have ok: "list_all2 (task_ok svc) ps (?ts[i := ?new])"
    using inv i r list_all2_update_cong[of "task_ok svc" ps ?ts "ps ! i" ?new i]
    by (simp add: par_inv_def)
  have "mset (concat (map2 task_sent ps (?ts[i := ?new]))) =
      mset (concat (map2 task_sent ps ?ts))"
    using mset_concat_update[of i "map2 task_sent ps ?ts" "task_sent (ps ! i) ?new"] i len sent_same
    by (simp add: map2_update)
  then have sent_ok: "mset (sent s) = mset (concat (map2 task_sent ps (?ts[i := ?new])))"
    using inv by (simp add: par_inv_def)
  have rej: "rejection_ok (join_rejection (first_rejection s) r) (?ts[i := ?new])"
    using inv i open_task by (simp add: par_inv_def rejection_ok_finish)
  show ?thesis
    using ok sent_ok rej by (simp add: par_inv_def finish_task_def)
qed

lemma start_call_inv:
  assumes inv: "par_inv svc ps s" and i: "i < length (tasks s)" and todo: "tasks s ! i = Todo"
    and u: "preview_requests [ps ! i] = [u]"
  shows "par_inv svc ps (s\<lparr>tasks := (tasks s)[i := Awaiting u], sent := sent s @ [u]\<rparr>)"
proof -
  let ?ts = "tasks s"
  have len: "length ps = length ?ts" using par_inv_length[OF inv] by simp
  have ok: "list_all2 (task_ok svc) ps (?ts[i := Awaiting u])"
    using inv u list_all2_update_cong[of "task_ok svc" ps ?ts "ps ! i" "Awaiting u" i]
    by (simp add: par_inv_def)
  have "mset (concat (map2 task_sent ps (?ts[i := Awaiting u]))) =
      mset (concat (map2 task_sent ps ?ts)) + {#u#}"
    using mset_concat_update[of i "map2 task_sent ps ?ts" "[u]"] i len todo u
    by (simp add: map2_update)
  moreover have "rejection_ok (first_rejection s) (?ts[i := Awaiting u])"
    using inv todo by (simp add: par_inv_def rejection_ok_keep)
  ultimately show ?thesis
    using inv ok by (simp add: par_inv_def)
qed

lemma par_step_inv: "par_step svc ps s s' \<Longrightarrow> par_inv svc ps s \<Longrightarrow> par_inv svc ps s'"
proof (induction rule: par_step.induct)
  case (start_call i s u)
  then show ?case by (simp add: start_call_inv previewUrl_step_sent)
next
  case (start_local i s)
  then show ?case
    by (intro finish_task_inv) (simp_all add: previewUrl_step_sent resolve_project_def)
next
  case (resume i s u)
  then have "preview_requests [ps ! i] = [u]"
    using par_inv_length[of svc ps s] by (auto simp: par_inv_def list_all2_conv_all_nth)
  with resume show ?case by (intro finish_task_inv) (simp_all add: resume_resolves)
qed

lemma par_reach_inv: "par_reach svc ps s \<Longrightarrow> par_inv svc ps s"
  unfolding par_reach_def
  by (induction rule: rtranclp_induct) (simp_all add: par_inv_init par_step_inv)

subsection \<open>The join\<close>

lemma finished_values:
  "list_all2 (task_ok svc) ps ts \<Longrightarrow> list_all task_finished ts \<Longrightarrow> \<not> list_ex task_rejected ts \<Longrightarrow>
     map (resolve_project svc) ps = map Inr (map (the \<circ> task_value) ts)"
proof (induction rule: list_all2_induct)
  case Nil
  then show ?case by simp
next
  case (Cons p ps t ts)
  then show ?case
    by (cases t; cases "resolve_project svc p") auto
qed

lemma rejected_task_fails:
  "list_all2 (task_ok svc) ps ts \<Longrightarrow> Finished (Inl e) \<in> set ts \<Longrightarrow>
     \<exists>p\<in>set ps. resolve_project svc p = Inl e"
  by (fastforce simp: list_all2_conv_all_nth in_set_conv_nth)

lemma getStaticProps_fst: "fst (projects_getStaticProps svc ps) = js_all (map (resolve_project svc) ps)"
  by (simp add: projects_getStaticProps_def placeholders_loop_result)

lemma demo_run_steps:
  "\<exists>s. (par_step demo_svc [demo_project] ^^ 2) (par_init [demo_project]) s \<and> list_all task_finished (tasks s)"
proof -
  let ?ps = "[demo_project]" and ?u = "url demo_image"
  let ?s1 = "(par_init ?ps)\<lparr>tasks := (tasks (par_init ?ps))[0 := Awaiting ?u],
                            sent := sent (par_init ?ps) @ [?u]\<rparr>"
  let ?r = "js_map (\<lambda>v. with_placeholder (?ps ! 0) (Some v)) (getPreviewImageUrl demo_svc ?u)"
  have "snd (previewUrl_step demo_svc (?ps ! 0) []) = [?u]"
    using demo_image_absolute by (simp add: previewUrl_step_def)
  then have 1: "par_step demo_svc ?ps (par_init ?ps) ?s1"
    by (intro par_step.start_call) (simp_all add: par_init_def)
  have 2: "par_step demo_svc ?ps ?s1 (finish_task ?s1 0 ?r)"
    by (rule par_step.resume) (simp_all add: par_init_def)
  have "(par_step demo_svc ?ps ^^ 2) (par_init ?ps) (finish_task ?s1 0 ?r)"
    using 1 2 by (auto simp: numeral_2_eq_2 relpowp_Suc_I)
  moreover have "list_all task_finished (tasks (finish_task ?s1 0 ?r))"
    by (simp add: finish_task_def par_init_def)
  ultimately show ?thesis by blast
qed

lemma demo_run: "\<exists>s. par_reach demo_svc [demo_project] s \<and> list_all task_finished (tasks s)"
  using demo_run_steps by (auto simp: par_reach_def dest: relpowp_imp_rtranclp)

subsection \<open>The sequential loop is one schedule of the tasks\<close>

lemma one_task_run:
  assumes i: "i < length (tasks s)" and todo: "tasks s ! i = Todo"
  shows "\<exists>s'. (par_step svc ps)\<^sup>*\<^sup>* s s' \<and>
           tasks s' = (tasks s)[i := Finished (resolve_project svc (ps ! i))] \<and>
           sent s' = sent s @ preview_requests [ps ! i] \<and>
           first_rejection s' = join_rejection (first_rejection s) (resolve_project svc (ps ! i))"
proof -
  consider "preview_requests [ps ! i] = []" | u where "preview_requests [ps ! i] = [u]"
    using preview_requests_single by blast
  then show ?thesis
  proof cases
    case 1
    then have "snd (previewUrl_step svc (ps ! i) []) = []" by (simp add: previewUrl_step_sent)
    with i todo have "par_step svc ps s (finish_task s i (js_map (with_placeholder (ps ! i))
        (fst (previewUrl_step svc (ps ! i) []))))"
      by (rule par_step.start_local)
    with 1 show ?thesis
      by (intro exI[of _ "finish_task s i (resolve_project svc (ps ! i))"])
         (simp add: finish_task_def resolve_project_def)
  next
    case (2 u)
    let ?s1 = "s\<lparr>tasks := (tasks s)[i := Awaiting u], sent := sent s @ [u]\<rparr>"
    have "snd (previewUrl_step svc (ps ! i) []) = [u]" using 2 by (simp add: previewUrl_step_sent)
    with i todo have step1: "par_step svc ps s ?s1" by (rule par_step.start_call)
    have "par_step svc ps ?s1 (finish_task ?s1 i (js_map (\<lambda>v. with_placeholder (ps ! i) (Some v))
        (getPreviewImageUrl svc u)))"
      using i by (intro par_step.resume) simp_all
    with step1 have "(par_step svc ps)\<^sup>*\<^sup>* s (finish_task ?s1 i (resolve_project svc (ps ! i)))"
      using resume_resolves[OF 2, of svc] by simp
    with 2 show ?thesis
      by (intro exI[of _ "finish_task ?s1 i (resolve_project svc (ps ! i))"]) (simp add: finish_task_def)
  qed
qed

lemma update_after_prefix:
  "(xs @ a # ys)[length xs := b] = (xs @ [b]) @ ys"
  by (simp add: list_update_append)

lemma par_outcome_values:
  "first_rejection s = None \<Longrightarrow> tasks s = map (\<lambda>q. Finished (Inr q)) acc \<Longrightarrow> par_outcome s = Some (Inr acc)"
  by (simp add: par_outcome_def list_all_iff comp_def)

lemma in_order_run:
  assumes "ps = pre @ rest" "tasks s = map (\<lambda>q. Finished (Inr q)) acc @ replicate (length rest) Todo"
    and "length acc = length pre" and "first_rejection s = None"
  shows "\<exists>t. (par_step svc ps)\<^sup>*\<^sup>* s t \<and> sent t = snd (placeholders_loop svc rest acc (sent s)) \<and>
           par_outcome t = Some (fst (placeholders_loop svc rest acc (sent s)))"
  using assms
proof (induction rest arbitrary: pre acc s)
  case Nil
  then show ?case by (intro exI[of _ s]) (simp add: par_outcome_values)
next
  case (Cons p rest)
  let ?i = "length acc"
  have i: "?i < length (tasks s)" and todo: "tasks s ! ?i = Todo" and psi: "ps ! ?i = p"
    using Cons.prems by (simp_all add: nth_append)
  obtain s' where run: "(par_step svc ps)\<^sup>*\<^sup>* s s'"
      and ts': "tasks s' = (tasks s)[?i := Finished (resolve_project svc p)]"
      and sent': "sent s' = sent s @ preview_requests [p]"
      and rej': "first_rejection s' = join_rejection (first_rejection s) (resolve_project svc p)"
    using one_task_run[OF i todo, of svc ps] psi by auto
  show ?case
  proof (cases "resolve_project svc p")
    case (Inl e)
    then have "par_outcome s' = Some (Inl e)"
      using rej' Cons.prems(4) by (simp add: par_outcome_def join_rejection_def)
    then show ?thesis using run sent' Inl by (auto simp: placeholders_loop_Cons)
  next
    case (Inr q)
    have "tasks s' = map (\<lambda>q. Finished (Inr q)) (acc @ [q]) @ replicate (length rest) Todo"
      using ts' Cons.prems(2) Inr update_after_prefix[of "map (\<lambda>q. Finished (Inr q)) acc"] by simp
    moreover have "first_rejection s' = None" using rej' Cons.prems(4) Inr by (simp add: join_rejection_def)
    moreover have "ps = (pre @ [p]) @ rest" "length (acc @ [q]) = length (pre @ [p])"
      using Cons.prems by simp_all
    ultimately obtain t where "(par_step svc ps)\<^sup>*\<^sup>* s' t"
        "sent t = snd (placeholders_loop svc rest (acc @ [q]) (sent s'))"
        "par_outcome t = Some (fst (placeholders_loop svc rest (acc @ [q]) (sent s')))"
      using Cons.IH by blast
    then show ?thesis using run sent' Inr
      by (intro exI[of _ t]) (simp add: placeholders_loop_Cons)
  qed
qed

subsection \<open>Properties of the parallel build\<close>

text \<open>C25 (refinement): whenever the join settles, it agrees with the sequential loop of
  \<open>getStaticProps\<close>: it fails exactly when the loop fails, with the error of one of the
  projects, and when it succeeds it yields the loop's list of projects.\<close>

theorem par_outcome_refines:
  "par_reach svc ps s \<Longrightarrow> par_outcome s = Some r \<Longrightarrow>
     (isl r \<longleftrightarrow> isl (fst (projects_getStaticProps svc ps))) \<and>
     (\<not> isl r \<longrightarrow> r = fst (projects_getStaticProps svc ps)) \<and>
     (\<forall>e. r = Inl e \<longrightarrow> (\<exists>p\<in>set ps. resolve_project svc p = Inl e))"
proof -
  assume reach: "par_reach svc ps s" and out: "par_outcome s = Some r"
  have inv: "par_inv svc ps s" using reach by (rule par_reach_inv)
  then have ok: "list_all2 (task_ok svc) ps (tasks s)" by (simp add: par_inv_def)
  show ?thesis
  proof (cases "first_rejection s")
    case (Some e)
    then have r: "r = Inl e" using out by (simp add: par_outcome_def)
    have "Finished (Inl e) \<in> set (tasks s)" using inv Some by (simp add: par_inv_def)
    then obtain p where "p \<in> set ps" "resolve_project svc p = Inl e"
      using rejected_task_fails[OF ok] by blast
    then have "isl (js_all (map (resolve_project svc) ps))"
      using js_all_Inl_iff[of "map (resolve_project svc) ps"] by (cases "js_all (map (resolve_project svc) ps)") force+
    then show ?thesis using r \<open>p \<in> set ps\<close> \<open>resolve_project svc p = Inl e\<close>
      by (auto simp: getStaticProps_fst)
  next
    case None
    then have fin: "list_all task_finished (tasks s)" and r: "r = Inr (map (the \<circ> task_value) (tasks s))"
      using out by (simp_all add: par_outcome_def split: if_splits)
    have "\<not> list_ex task_rejected (tasks s)" using inv None by (simp add: par_inv_def)
    then have "js_all (map (resolve_project svc) ps) = r"
      using finished_values[OF ok fin] r by (simp add: js_all_eq_Inr)
    then show ?thesis using r by (simp add: getStaticProps_fst)
  qed
qed

text \<open>C26 (refinement, the converse direction): the sequential loop of \<open>getStaticProps\<close>
  is one schedule of the parallel tasks. Running the tasks one after the other in
  project order, each to its end, sends exactly the loop's requests in the loop's order
  and settles the join with exactly the loop's result, failure included.\<close>

theorem par_sequential_schedule:
  "\<exists>s. (par_step svc ps)\<^sup>*\<^sup>* (par_init ps) s \<and>
       sent s = snd (projects_getStaticProps svc ps) \<and>
       par_outcome s = Some (fst (projects_getStaticProps svc ps))"
  using in_order_run[where ps = ps and pre = "[]" and rest = ps and acc = "[]" and s = "par_init ps" and svc = svc]
  by (simp add: par_init_def projects_getStaticProps_def)

subsection \<open>The properties on a concrete run\<close>

theorem par_outcome_refines_witness:
  "\<exists>s r. par_reach demo_svc [demo_project] s \<and> par_outcome s = Some r \<and>
     r = fst (projects_getStaticProps demo_svc [demo_project])"
proof -
  obtain s where s: "par_reach demo_svc [demo_project] s" and fin: "list_all task_finished (tasks s)"
    using demo_run by blast
  have ok: "\<not> isl (fst (projects_getStaticProps demo_svc [demo_project]))"
    using demo_image_absolute
    by (simp add: projects_getStaticProps_single resolve_project_cases getPreviewImageUrl_def)
  obtain r where r: "par_outcome s = Some r"
    using fin by (cases "first_rejection s") (auto simp: par_outcome_def)
  with par_outcome_refines[OF s r] ok show ?thesis using s by blast
qed

end
