(* ===== verification/JsonValue.thy ===== *)
theory JsonValue
  imports JsRuntime "HOL-Library.Monad_Syntax"
begin

text \<open>
  JavaScript values as the pages build and read them, and what Next.js does with the
  props a \<open>getStaticProps\<close> returns. A value is \<open>undefined\<close>, \<open>null\<close>, a boolean, a number
  (an integer here: the pages only hold integer levels), a string, an array or a plain
  object, whose members are kept in insertion order. The operations are the parts of the
  language the pages use: a property read \<open>v.k\<close> (\<open>js_get\<close>, throwing on \<open>null\<close> and
  \<open>undefined\<close>), \<open>String(v)\<close> (\<open>js_String\<close>), \<open>a ?? b\<close> (\<open>js_nullish\<close>), \<open>a || b\<close>
  (\<open>js_or\<close>), the object spread \<open>{...o, k: v}\<close> (\<open>js_spread\<close>) and
  \<open>s.localeCompare(t)\<close> (\<open>js_localeCompare\<close>).
  Next.js checks at build time that the props are JSON values (\<open>isSerializableProps\<close>:
  \<open>undefined\<close> anywhere is an error, "\<open>undefined\<close> cannot be serialized as JSON. Please use
  \<open>null\<close> or omit this value"), writes them into the page as JSON and parses them again
  in the browser; \<open>next_serializable\<close> is the check and \<open>json_transfer\<close> is
  \<open>JSON.parse(JSON.stringify(v))\<close>, which drops \<open>undefined\<close> members of objects and turns
  \<open>undefined\<close> elements of arrays into \<open>null\<close>. None of this is code of the repository:
  it is modelled from the language and framework documentation.
\<close>

datatype js_value =
    JUndefined
  | JNull
  | JBool bool
  | JNumber int
  | JString string
  | JArray "js_value list"
  | JObject "(string \<times> js_value) list"

text \<open>Reading a property. A missing member, and any property of a primitive the pages do
  not use, reads as \<open>undefined\<close>.\<close>

definition js_quoted :: "string \<Rightarrow> string" where
  "js_quoted k = char_of (39::nat) # k @ [char_of (39::nat)]"

definition js_get :: "js_value \<Rightarrow> string \<Rightarrow> js_value js_result" where
  "js_get v k =
     (case v of
        JUndefined \<Rightarrow> Inl (TypeError (''Cannot read properties of undefined (reading '' @ js_quoted k @ '')''))
      | JNull \<Rightarrow> Inl (TypeError (''Cannot read properties of null (reading '' @ js_quoted k @ '')''))
      | JObject ms \<Rightarrow> Inr (case map_of ms k of None \<Rightarrow> JUndefined | Some x \<Rightarrow> x)
      | _ \<Rightarrow> Inr JUndefined)"

fun digits_of_nat :: "nat \<Rightarrow> string" where
  "digits_of_nat n =
     (if n < 10 then [char_of (48 + n)] else digits_of_nat (n div 10) @ [char_of (48 + n mod 10)])"

definition js_number_string :: "int \<Rightarrow> string" where
  "js_number_string i = (if i < 0 then ''-'' @ digits_of_nat (nat (- i)) else digits_of_nat (nat i))"

text \<open>\<open>Array.prototype.join\<close> with its default separator.\<close>

fun js_join :: "string list \<Rightarrow> string" where
  "js_join [] = []"
| "js_join [s] = s"
| "js_join (s # ss) = s @ '','' @ js_join ss"

text \<open>\<open>String(v)\<close>: an array joins its elements with commas, \<open>null\<close> and \<open>undefined\<close>
  elements as the empty text.\<close>

fun js_String :: "js_value \<Rightarrow> string" where
  "js_String JUndefined = ''undefined''"
| "js_String JNull = ''null''"
| "js_String (JBool b) = (if b then ''true'' else ''false'')"
| "js_String (JNumber i) = js_number_string i"
| "js_String (JString s) = s"
| "js_String (JArray vs) =
     js_join (map (\<lambda>v. if v = JUndefined \<or> v = JNull then [] else js_String v) vs)"
| "js_String (JObject ms) = ''[object Object]''"

definition js_nullish :: "js_value \<Rightarrow> js_value \<Rightarrow> js_value" where
  "js_nullish a b = (case a of JUndefined \<Rightarrow> b | JNull \<Rightarrow> b | _ \<Rightarrow> a)"

fun js_truthy :: "js_value \<Rightarrow> bool" where
  "js_truthy JUndefined = False"
| "js_truthy JNull = False"
| "js_truthy (JBool b) = b"
| "js_truthy (JNumber i) = (i \<noteq> 0)"
| "js_truthy (JString s) = (s \<noteq> [])"
| "js_truthy (JArray vs) = True"
| "js_truthy (JObject ms) = True"

definition js_or :: "js_value \<Rightarrow> js_value \<Rightarrow> js_value" where
  "js_or a b = (if js_truthy a then a else b)"

text \<open>\<open>ToNumber\<close> on the values the comparators subtract, \<open>None\<close> standing for \<open>NaN\<close>
  (strings other than the empty one are read as \<open>NaN\<close>: the pages never subtract
  strings). Subtraction propagates \<open>NaN\<close>. The sort only asks whether the comparator's
  result is below 0, and \<open>NaN < 0\<close> is false as \<open>0 < 0\<close> is, so \<open>js_order\<close> reads a \<open>NaN\<close>
  result as 0.\<close>

fun js_to_number :: "js_value \<Rightarrow> int option" where
  "js_to_number (JNumber i) = Some i"
| "js_to_number (JBool b) = Some (if b then 1 else 0)"
| "js_to_number JNull = Some 0"
| "js_to_number (JString s) = (if s = [] then Some 0 else None)"
| "js_to_number _ = None"

definition js_sub :: "js_value \<Rightarrow> js_value \<Rightarrow> int option" where
  "js_sub a b = (case (js_to_number a, js_to_number b) of (Some x, Some y) \<Rightarrow> Some (x - y) | _ \<Rightarrow> None)"

definition js_order :: "int option \<Rightarrow> int" where
  "js_order r = (case r of None \<Rightarrow> 0 | Some x \<Rightarrow> x)"

text \<open>Setting a member: an existing key keeps its position, a new key goes last.\<close>

fun js_set_member :: "(string \<times> js_value) list \<Rightarrow> string \<Rightarrow> js_value \<Rightarrow> (string \<times> js_value) list" where
  "js_set_member [] k v = [(k, v)]"
| "js_set_member ((k', v') # ms) k v =
     (if k' = k then (k, v) # ms else (k', v') # js_set_member ms k v)"

definition js_spread :: "js_value \<Rightarrow> (string \<times> js_value) list \<Rightarrow> js_value" where
  "js_spread obj extra =
     JObject (foldl (\<lambda>ms (k, v). js_set_member ms k v)
       (case obj of JObject ms \<Rightarrow> ms | _ \<Rightarrow> []) extra)"

definition js_localeCompare :: "js_value \<Rightarrow> js_value js_result \<Rightarrow> int js_result" where
  "js_localeCompare recv arg =
     (case recv of
        JString s \<Rightarrow> js_map (\<lambda>a. locale_compare s (js_String a)) arg
      | JNull \<Rightarrow> Inl (TypeError ''Cannot read properties of null (reading 'localeCompare')'')
      | JUndefined \<Rightarrow> Inl (TypeError ''Cannot read properties of undefined (reading 'localeCompare')'')
      | _ \<Rightarrow> Inl (TypeError ''localeCompare is not a function''))"

subsection \<open>Next.js's props check and the JSON transfer\<close>

fun next_serializable :: "js_value \<Rightarrow> bool" where
  "next_serializable JUndefined = False"
| "next_serializable (JArray vs) = list_all next_serializable vs"
| "next_serializable (JObject ms) = list_all (\<lambda>(k, v). next_serializable v) ms"
| "next_serializable _ = True"

definition next_check_props :: "js_value \<Rightarrow> js_value js_result" where
  "next_check_props v =
     (if next_serializable v then Inr v
      else Inl (SerializeError ''`undefined` cannot be serialized as JSON. Please use `null` or omit this value.''))"

fun json_transfer :: "js_value \<Rightarrow> js_value" where
  "json_transfer (JArray vs) = JArray (map (\<lambda>v. if v = JUndefined then JNull else json_transfer v) vs)"
| "json_transfer (JObject ms) =
     JObject (map (\<lambda>(k, v). (k, json_transfer v)) (filter (\<lambda>(k, v). v \<noteq> JUndefined) ms))"
| "json_transfer v = v"

text \<open>A page built by Next.js receives its props after the check and the transfer.\<close>

definition next_page_props :: "js_value js_result \<Rightarrow> js_value js_result" where
  "next_page_props props = js_map json_transfer (js_bind props next_check_props)"

text \<open>Reading typed fields back, as the page reads them at the props' declared types:
  a string, or a string or \<open>null\<close>.\<close>

definition member :: "(string \<times> js_value) list \<Rightarrow> string \<Rightarrow> js_value" where
  "member ms k = (case map_of ms k of None \<Rightarrow> JUndefined | Some v \<Rightarrow> v)"

fun as_string :: "js_value \<Rightarrow> string option" where
  "as_string (JString s) = Some s"
| "as_string _ = None"

fun as_nullable_string :: "js_value \<Rightarrow> string option option" where
  "as_nullable_string (JString s) = Some (Some s)"
| "as_nullable_string JNull = Some None"
| "as_nullable_string _ = None"

definition js_null_opt :: "string option \<Rightarrow> js_value" where
  "js_null_opt x = (case x of None \<Rightarrow> JNull | Some s \<Rightarrow> JString s)"

text \<open>A member that an object has only when a value is present.\<close>

definition opt_member :: "string \<Rightarrow> js_value option \<Rightarrow> (string \<times> js_value) list" where
  "opt_member k x = (case x of None \<Rightarrow> [] | Some v \<Rightarrow> [(k, v)])"

text \<open>A field of a content document that may be absent: reading it gives \<open>undefined\<close>.\<close>

definition js_opt_field :: "string option \<Rightarrow> js_value" where
  "js_opt_field x = (case x of None \<Rightarrow> JUndefined | Some s \<Rightarrow> JString s)"

subsection \<open>The transfer keeps every value the check accepts\<close>

lemma serializable_not_undefined: "next_serializable v \<Longrightarrow> v \<noteq> JUndefined"
  by auto

lemma json_transfer_serializable: "next_serializable v \<Longrightarrow> json_transfer v = v"
proof (induction v rule: json_transfer.induct)
  case (1 vs)
  then have "\<forall>v\<in>set vs. v \<noteq> JUndefined \<and> json_transfer v = v"
    by (auto simp: list_all_iff dest: serializable_not_undefined)
  then show ?case by (simp add: map_idI)
next
  case (2 ms)
  have each: "v \<noteq> JUndefined \<and> json_transfer v = v" if kv: "(k, v) \<in> set ms" for k v
  proof -
    have "next_serializable v" using 2(2) kv by (auto simp: list_all_iff)
    moreover have "v \<noteq> JUndefined" using \<open>next_serializable v\<close> by (rule serializable_not_undefined)
    moreover have "(k, v) \<in> set (filter (\<lambda>(k, v). v \<noteq> JUndefined) ms)"
      using kv \<open>v \<noteq> JUndefined\<close> by simp
    ultimately show ?thesis using 2(1) by blast
  qed
  have "filter (\<lambda>(k, v). v \<noteq> JUndefined) ms = ms"
    by (rule filter_True) (auto dest: each)
  moreover have "map (\<lambda>(k, v). (k, json_transfer v)) ms = ms"
    by (rule map_idI) (auto dest: each)
  ultimately show ?case by simp
qed simp_all

lemma next_page_props_Inr:
  "next_serializable v \<Longrightarrow> next_page_props (Inr v) = Inr v"
  by (simp add: next_page_props_def next_check_props_def json_transfer_serializable)

lemma next_page_props_Inl: "next_page_props (Inl e) = Inl e"
  by (simp add: next_page_props_def)

text \<open>The pattern of every page: props that encode a typed value without \<open>undefined\<close>
  reach the page as that value, and a failing build step fails the page.\<close>

lemma next_page_roundtrip:
  assumes "\<And>x. next_serializable (enc x) \<and> dec (enc x) = Some x"
  shows "js_map dec (next_page_props (js_map enc r)) = js_map Some r"
  using assms by (cases r) (simp_all add: next_page_props_Inl next_page_props_Inr)

lemma js_null_opt_simps [simp]: "js_null_opt None = JNull" "js_null_opt (Some s) = JString s"
  by (simp_all add: js_null_opt_def)

lemma js_null_opt_serializable [simp]: "next_serializable (js_null_opt x)"
  by (cases x) (simp_all add: js_null_opt_def)

lemma as_nullable_string_null_opt [simp]: "as_nullable_string (js_null_opt x) = Some x"
  by (cases x) (simp_all add: js_null_opt_def)

lemma js_nullish_opt_field [simp]: "js_nullish (js_opt_field x) JNull = js_null_opt x"
  by (cases x) (simp_all add: js_nullish_def js_opt_field_def js_null_opt_def)

lemma js_String_null_opt [simp]: "js_String (js_null_opt x) = js_to_string x"
  by (cases x) (simp_all add: js_null_opt_def)

lemma member_simps [simp]:
  "member [] k = JUndefined"
  "member ((k, v) # ms) k = v"
  "k' \<noteq> k \<Longrightarrow> member ((k', v) # ms) k = member ms k"
  by (simp_all add: member_def)

lemma js_set_member_new:
  "k \<notin> fst ` set ms \<Longrightarrow> js_set_member ms k v = ms @ [(k, v)]"
  by (induction ms) auto

lemma member_append:
  "member (ms @ ns) k = (if k \<in> fst ` set ms then member ms k else member ns k)"
  by (induction ms) (auto simp: member_def)

lemma member_opt_member:
  "member (opt_member k' x) k = (if k = k' then (case x of None \<Rightarrow> JUndefined | Some v \<Rightarrow> v) else JUndefined)"
  by (simp add: opt_member_def member_def split: option.split)

lemma fst_opt_member [simp]: "fst ` set (opt_member k x) = (case x of None \<Rightarrow> {} | Some v \<Rightarrow> {k})"
  by (simp add: opt_member_def split: option.split)

lemma those_map_as_string [simp]: "those (map (as_string \<circ> JString) xs) = Some xs"
  by (induction xs) simp_all

lemma js_get_object [simp]: "js_get (JObject ms) k = Inr (member ms k)"
  by (simp add: js_get_def member_def)

end
