(* ===== verification/NextData.thy ===== *)
theory NextData
  imports JsonValue Projects Achievements
begin

text \<open>
  The pages' props as the JavaScript objects the code builds, and the way Next.js hands
  them from \<open>getStaticProps\<close> to the page component. The other theories model the
  props as records; this one translates the object literals of the code over
  \<^typ>\<open>js_value\<close>, shows that the records are a faithful abstraction of them (the
  encoding of the record model is the object model), and composes the build with Next's
  serialization check and the JSON transfer to the browser.
  \<^item> \<open>src/pages/achievements.tsx\<close>: the literal of lines 37--45 with its four
    \<open>?? null\<close> (\<open>achievement_object\<close>), the comparator on those objects
    (\<open>date_cmp_value\<close>), and the props \<open>{ achievements }\<close>.
  \<^item> \<open>src/pages/projects/index.tsx\<close>: the content document of a project, the pushed
    literal \<open>{...project, placeholderImage: previewUrl}\<close> (\<open>placeholder_object\<close>), and
    the page's comparator
    \<open>(b.level || 0) - (a.level || 0)\<close> on the received objects (\<open>level_cmp_value\<close>).
  The achievements page reads its props back at their declared type
  (\<open>achievements_of_props\<close>). The content layer's generated documents omit an absent
  optional field (they are JSON files), so such a field is a missing member, not a member
  holding \<open>undefined\<close>.
\<close>

subsection \<open>Achievements\<close>

definition achievement_object :: "achievement \<Rightarrow> js_value" where
  "achievement_object achievement =
     JObject [(''id'', JString (achievement_id achievement)),
              (''title'', JString (title achievement)),
              (''content'', JString (body_code achievement)),
              (''date'', js_nullish (js_opt_field (date achievement)) JNull),
              (''prizeValue'', js_nullish (js_opt_field (prizeValue achievement)) JNull),
              (''proof'', js_nullish (js_opt_field (achievement_proof achievement)) JNull),
              (''image'', js_nullish (js_opt_field (achievement_image achievement)) JNull)]"

definition date_cmp_value :: "js_value comparator" where
  "date_cmp_value a b = js_bind (js_get b ''date'') (\<lambda>d. js_localeCompare d (js_get a ''date''))"

definition achievements_props_value :: "achievement list \<Rightarrow> js_value js_result" where
  "achievements_props_value allAchievements =
     js_map (\<lambda>cleanedAchievements. JObject [(''achievements'', JArray cleanedAchievements)])
       (js_sort date_cmp_value (map achievement_object allAchievements))"

text \<open>The record model's cleaned achievement as the object it stands for.\<close>

definition cleaned_value :: "cleaned_achievement \<Rightarrow> js_value" where
  "cleaned_value c =
     JObject [(''id'', JString (ca_id c)), (''title'', JString (ca_title c)),
              (''content'', JString (content c)), (''date'', js_null_opt (ca_date c)),
              (''prizeValue'', js_null_opt (ca_prizeValue c)), (''proof'', js_null_opt (ca_proof c)),
              (''image'', js_null_opt (ca_image c))]"

definition cleaned_of_value :: "js_value \<Rightarrow> cleaned_achievement option" where
  "cleaned_of_value v =
     (case v of
        JObject ms \<Rightarrow> do {
          i \<leftarrow> as_string (member ms ''id'');
          t \<leftarrow> as_string (member ms ''title'');
          c \<leftarrow> as_string (member ms ''content'');
          d \<leftarrow> as_nullable_string (member ms ''date'');
          pv \<leftarrow> as_nullable_string (member ms ''prizeValue'');
          pr \<leftarrow> as_nullable_string (member ms ''proof'');
          im \<leftarrow> as_nullable_string (member ms ''image'');
          Some \<lparr>ca_id = i, ca_title = t, content = c, ca_date = d, ca_prizeValue = pv,
                ca_proof = pr, ca_image = im\<rparr>
        }
      | _ \<Rightarrow> None)"

definition achievements_of_props :: "js_value \<Rightarrow> cleaned_achievement list option" where
  "achievements_of_props v =
     (case v of
        JObject ms \<Rightarrow> (case member ms ''achievements'' of
                         JArray vs \<Rightarrow> those (map cleaned_of_value vs)
                       | _ \<Rightarrow> None)
      | _ \<Rightarrow> None)"

subsection \<open>Projects\<close>

text \<open>A content document of a project, with its optional fields present only when set.\<close>

definition project_members :: "project \<Rightarrow> (string \<times> js_value) list" where
  "project_members p =
     ([(''_id'', JString (project_id p)), (''slug'', JString (slug p)),
               (''name'', JString (name p)), (''description'', JString (description p)),
               (''link'', JString (link p)), (''githubLink'', JString (githubLink p))] @
              opt_member ''image'' (map_option (\<lambda>i. JObject [(''url'', JString (url i))]) (project_image p)) @
              opt_member ''video'' (map_option JString (video p)) @
              [(''badges'', JArray (map JString (badges p)))] @
              opt_member ''level'' (map_option JNumber (level p)))"

definition project_document :: "project \<Rightarrow> js_value" where
  "project_document p = JObject (project_members p)"

definition placeholder_object :: "project \<Rightarrow> string option \<Rightarrow> js_value" where
  "placeholder_object project previewUrl =
     js_spread (project_document project) [(''placeholderImage'', js_null_opt previewUrl)]"

text \<open>The record model's project with placeholder as the object it stands for.\<close>

definition pwp_value :: "project_with_placeholder \<Rightarrow> js_value" where
  "pwp_value q = placeholder_object (project.truncate q) (placeholderImage q)"

definition level_cmp_value :: "js_value comparator" where
  "level_cmp_value a b =
     js_bind (js_get b ''level'') (\<lambda>bl. js_map (\<lambda>al.
       js_order (js_sub (js_or bl (JNumber 0)) (js_or al (JNumber 0)))) (js_get a ''level''))"

subsection \<open>The record model is the object model\<close>

lemma achievement_object_clean: "achievement_object a = cleaned_value (clean_achievement a)"
  by (simp add: achievement_object_def cleaned_value_def clean_achievement_def)

lemma date_cmp_value_clean: "date_cmp_value (cleaned_value a) (cleaned_value b) = date_cmp a b"
  by (cases "ca_date b")
     (simp_all add: date_cmp_value_def cleaned_value_def date_cmp_def js_localeCompare_def)

lemma cleaned_roundtrip: "cleaned_of_value (cleaned_value c) = Some c"
  by (simp add: cleaned_of_value_def cleaned_value_def)

lemma cleaned_serializable: "next_serializable (cleaned_value c)"
  by (simp add: cleaned_value_def)

lemma those_map_Some: "(\<And>x. x \<in> set xs \<Longrightarrow> f (g x) = Some x) \<Longrightarrow> those (map (f \<circ> g) xs) = Some xs"
  by (induction xs) auto

lemma achievements_sort_objects:
  "js_sort date_cmp_value (map achievement_object xs) =
     js_map (map cleaned_value) (achievements_getStaticProps xs)"
proof -
  have m: "map achievement_object xs = map cleaned_value (map clean_achievement xs)"
    by (simp add: achievement_object_clean)
  have "js_sort date_cmp_value (map cleaned_value (map clean_achievement xs)) =
      js_map (map cleaned_value) (js_sort date_cmp (map clean_achievement xs))"
    by (rule js_sort_map) (rule date_cmp_value_clean)
  then show ?thesis by (simp only: m achievements_getStaticProps_def)
qed

lemma achievements_props_record:
  "next_serializable (JObject [(''achievements'', JArray (map cleaned_value cs))]) \<and>
     achievements_of_props (JObject [(''achievements'', JArray (map cleaned_value cs))]) = Some cs"
  by (simp add: list_all_iff cleaned_serializable achievements_of_props_def those_map_Some[of _ cleaned_of_value cleaned_value] cleaned_roundtrip)

lemma truncate_document_fields [simp]:
  "project_id (project.truncate q) = project_id q" "slug (project.truncate q) = slug q"
  "description (project.truncate q) = description q" "link (project.truncate q) = link q"
  "githubLink (project.truncate q) = githubLink q" "video (project.truncate q) = video q"
  "badges (project.truncate q) = badges q"
  by (simp_all add: project.defs)

lemma placeholder_object_members:
  "placeholder_object p u = JObject (project_members p @ [(''placeholderImage'', js_null_opt u)])"
proof -
  have "''placeholderImage'' \<notin> fst ` set (project_members p)"
    by (auto simp: project_members_def opt_member_def split: option.splits)
  then show ?thesis
    by (simp add: placeholder_object_def js_spread_def project_document_def js_set_member_new)
qed

lemma pwp_with_placeholder: "pwp_value (with_placeholder p u) = placeholder_object p u"
  by (simp add: pwp_value_def)

lemma pwp_level:
  "js_get (pwp_value q) ''level'' = Inr (case level q of None \<Rightarrow> JUndefined | Some n \<Rightarrow> JNumber n)"
  by (simp add: pwp_value_def placeholder_object_members project_members_def member_append
      member_opt_member split: option.split)

lemma js_or_number_zero: "js_to_number (js_or (case x of None \<Rightarrow> JUndefined | Some n \<Rightarrow> JNumber n) (JNumber 0)) = Some (js_or_zero x)"
  by (cases x) (simp_all add: js_or_def)

lemma level_cmp_value_pwp: "level_cmp_value (pwp_value a) (pwp_value b) = level_cmp a b"
  by (simp add: level_cmp_value_def pwp_level js_sub_def js_or_number_zero js_order_def level_cmp_def)

subsection \<open>Properties of the achievements props\<close>

text \<open>C28 (refinement): the object model of \<open>getStaticProps\<close> (the literal of lines
  37--44 with its \<open>?? null\<close>, sorted by \<open>b.date.localeCompare(a.date)\<close> on the objects) is
  the record model encoded: every result of the record model, sorted list or
  \<open>TypeError\<close>, is the result of the code on the objects.\<close>

theorem achievements_value_refines:
  "achievements_props_value xs =
     js_map (\<lambda>cs. JObject [(''achievements'', JArray (map cleaned_value cs))]) (achievements_getStaticProps xs)"
  by (simp add: achievements_props_value_def achievements_sort_objects js_map_js_map)

text \<open>C29 (round trip through Next.js): the achievements page receives, after Next's
  serialization check and the JSON transfer to the browser, exactly the cleaned
  achievements of the record model, read at their declared types; when the build step
  throws, the page is not built, with the same error. No prop is \<open>undefined\<close>: the
  \<open>?? null\<close> of lines 41--44 is what lets the check pass for content without a date,
  prize, proof or image.\<close>

theorem achievements_page_receives:
  "js_map achievements_of_props (next_page_props (achievements_props_value xs)) =
     js_map Some (achievements_getStaticProps xs)"
  unfolding achievements_props_value_def achievements_sort_objects js_map_js_map
  by (rule next_page_roundtrip) (rule achievements_props_record)

subsection \<open>Properties of the projects props\<close>

text \<open>C30 (refinement): the page's in-place sort, run by the code on the objects it
  receives with \<open>(b.level || 0) - (a.level || 0)\<close>, orders them exactly as the record
  model's sort orders the records: a missing \<open>level\<close> reads as \<open>undefined\<close>, and
  \<open>undefined || 0\<close> and \<open>0 || 0\<close> are both 0.\<close>

theorem projects_page_sort_value:
  "js_sort level_cmp_value (map pwp_value qs) = js_map (map pwp_value) (js_sort level_cmp qs)"
  by (rule js_sort_map) (rule level_cmp_value_pwp)

end
