(* ===== verification/Spec2Isabelle.thy ===== *)
theory Spec2Isabelle
  imports Projects Achievements Skills ParallelPreview NextData
begin

text \<open>
  \<^bold>\<open>A verification model of the harry-stage portfolio site.\<close>

  The repository is a statically generated Next.js site. Its logic is the data shaping
  that runs once per page at build time; everything else is presentation. The parts,
  in the order the development models them:

  \<^enum> \<^bold>\<open>Projects page\<close> (\<open>src/pages/projects/index.tsx\<close>, theory \<open>Projects\<close>).
    \<open>getStaticProps\<close> is \<^const>\<open>projects_getStaticProps\<close>: the \<open>for \<dots> of\<close> loop
    \<^const>\<open>placeholders_loop\<close> whose body \<^const>\<open>previewUrl_step\<close> awaits the preview-image
    service for absolute image URLs and \<^const>\<open>with_placeholder\<close> is the spread
    \<open>{...project, placeholderImage}\<close>; its state is the list of results so far and the
    log of URLs sent to the service. The page \<^const>\<open>ProjectsPage\<close> sorts with
    \<^const>\<open>level_cmp\<close> (\<open>(b.level || 0) - (a.level || 0)\<close>) and renders one card per
    project through \<^const>\<open>card_props\<close>.
  \<^enum> \<^bold>\<open>Project card\<close> (\<open>src/components/Projects/ProjectCard/ProjectCard.tsx\<close>, theory
    \<open>ProjectCard\<close>): \<^const>\<open>ProjectCard\<close>, over an interface record of the two link
    helpers of \<open>@/utils/helpers\<close>, which the sources do not contain.
  \<^enum> \<^bold>\<open>Achievements page\<close> (\<open>src/pages/achievements.tsx\<close>, theory \<open>Achievements\<close>):
    the mapper \<^const>\<open>clean_achievement\<close>, the comparator \<^const>\<open>date_cmp\<close>
    (\<open>b.date.localeCompare(a.date)\<close>, throwing when \<open>b.date\<close> is \<open>null\<close>), the sort in
    \<^const>\<open>achievements_getStaticProps\<close> and the page \<^const>\<open>AchievementsPage\<close>.
  \<^enum> \<^bold>\<open>Skill pages\<close> (\<open>src/pages/skills/[slug].tsx\<close>, theory \<open>Skills\<close>): the two
    GraphQL queries against a model of the content API (\<^const>\<open>query_PageSkillPaths\<close>,
    \<^const>\<open>query_PageSkill\<close>), \<^const>\<open>skills_getStaticPaths\<close>,
    \<^const>\<open>skills_getStaticProps\<close>, \<^const>\<open>SkillPage\<close>, and Next.js's static generation
    and serving with \<open>fallback: false\<close> (\<^const>\<open>skills_build\<close>, \<^const>\<open>serve_skill\<close>).
  \<^enum> \<^bold>\<open>Site configuration\<close> (\<open>src/next.config.js\<close>, theory \<open>SiteConfig\<close>): the image
    host list \<^const>\<open>image_domains\<close> and, from the spec's ownership rule, the helper
    \<^const>\<open>isAbsoluteURL\<close>.
  \<^enum> \<^bold>\<open>The parallel preview lookup\<close> (spec section 9, theory \<open>ParallelPreview\<close>):
    the build loop's body as one asynchronous task per project, split at its
    \<open>await\<close>, interleaved freely by the step relation \<open>par_step\<close> and joined as
    \<open>Promise.all\<close> joins (the first rejection settles the join). The state is the
    list of task states, the URLs sent in the order they went out, and the first
    rejection; \<^const>\<open>par_outcome\<close> is the join's result.
  \<^enum> \<^bold>\<open>From \<open>getStaticProps\<close> to the page\<close> (theories \<open>JsonValue\<close> and \<open>NextData\<close>):
    the props as the JavaScript objects the code builds (the achievement literal
    \<^const>\<open>achievement_object\<close> with its \<open>?? null\<close>, the pushed spread
    \<^const>\<open>placeholder_object\<close>), the two comparators on those objects
    (\<^const>\<open>date_cmp_value\<close>, \<^const>\<open>level_cmp_value\<close>), Next.js's serialization check
    \<^const>\<open>next_serializable\<close> and the JSON transfer \<^const>\<open>json_transfer\<close> to the browser,
    composed in \<^const>\<open>next_page_props\<close>; the page reads the props back at their
    declared types. The record model of the other theories is shown to be the encoding
    of this object model.
  \<^enum> Shared: \<open>Prelude\<close> (errors as \<open>js_error + 'a\<close>: \<open>TypeError\<close> for a property read of
    \<open>null\<close>, \<open>Rejected\<close> for a failed await; \<^const>\<open>js_bind\<close>, \<^const>\<open>js_all\<close>, JavaScript's
    \<open>||\<close> and \<open>String(null)\<close>), \<open>JsRuntime\<close> (\<open>localeCompare\<close> as
    \<^const>\<open>locale_compare\<close>, and a stable insertion sort \<^const>\<open>js_sort_ref\<close> used only as
    a reference), \<open>V8Sort\<close> (\<open>Array.prototype.sort\<close> as V8 runs it on arrays of fewer
    than 64 elements, \<^const>\<open>js_sort\<close>: the run detection \<^const>\<open>count_and_make_run\<close>,
    then the binary insertion \<^const>\<open>bin_insertion_sort\<close> over the search
    \<^const>\<open>bin_pos\<close>), and \<open>Content\<close> (the content layer's document records).

  The parts interact only by data: content records flow from the content layer into
  \<open>getStaticProps\<close>, its props into the page component, the page's props into the card.
  This theory composes the projects pipeline, \<open>projects_build\<close>, and states its
  end-to-end properties.

  \<^bold>\<open>What is proved.\<close> For the projects build (C1--C3, C5--C7, C23): the sequential
  loop equals independent per-project tasks joined in order (the spec's licence to
  parallelise); the service is called only for absolute image URLs, in order, and for
  all of them when the build succeeds; the placeholder of an image on the media host and
  of one elsewhere; every project is kept with its fields; the placeholder is
  \<open>null\<close> exactly for the projects without an image. For the sort (C4): on both pages
  the engine's sort returns what the reference stable insertion sort returns, so the
  pages' order does not depend on the comparisons V8 chooses. For the page (C8, C9): the
  order is the stable descending order of the level with 0 for a missing level; the
  placeholder never reaches the page. The card (C10). The achievements (C11--C14, C22,
  C24, C31): with all dates present, the stable descending sort by date; two or more
  undated achievements make the build throw wherever they stand (C12); with exactly one
  undated achievement, the exact condition under which the build throws, read off V8's
  run detection and binary insertion (C13); one card per achievement whenever the build
  succeeds (C14); an undated first achievement fails the build at the engine's first
  comparison (C22); an undated last one is sorted without error and listed first (C24);
  and whenever the build succeeds, its whole output: the undated achievement first,
  then the dated ones latest first and stable (C31). The skills (C15--C19, C27): every
  listed slug builds, the page of a slug shows that skill, an unknown slug is a 404 of
  the site \<^const>\<open>skills_build\<close> produces, whose \<open>fallback\<close> is the code's \<open>false\<close>
  (C17), and would throw if generated (C18); an unreachable API fails the build (C19);
  without assuming distinct slugs, every served page is the page of the first skill
  with its slug (C27). End to end (C20, C21): with every image present and a service
  that answers, the projects page builds with the cards in level order; one project
  without an image fails it, whatever the service does. For the parallel lookup of the
  spec's section 9 (C25, C26): whenever the join settles it agrees with the sequential
  loop, on failure and on the value; conversely the sequential loop is one schedule of
  the tasks, with its requests in its order and its result. The invariant of every
  reachable state (each finished task holds the loop body's result; no URL is requested
  beyond the sequential list) is \<open>par_reach_inv\<close>. The record model is the object model
  encoded, for the achievements' \<open>getStaticProps\<close> with its sort on objects (C28) and
  for the projects page's sort on the objects it receives, where a missing level is
  \<open>undefined\<close> and \<open>undefined || 0\<close> is 0 (C30); the achievements page receives,
  after Next's check and the JSON transfer, exactly the props of the record model, and
  fails with the build's error when it fails (C29): no prop is ever \<open>undefined\<close>,
  thanks to the \<open>?? null\<close> of the mapper.

  The sort's own results (theory \<open>V8Sort\<close>): it keeps its elements
  (\<open>js_sort_mset\<close>); it returns whenever no comparison of an element against an earlier
  one throws (\<open>js_sort_total\<close>); for a comparator ordering by a key, descending, it equals
  the reference (\<open>js_sort_eq_ref\<close>) and hence the stable sort (\<open>js_sort_descending\<close>); it
  commutes with an encoding (\<open>js_sort_map\<close>); every error is one the comparator threw
  (\<open>js_sort_Inl\<close>); and for a comparator that throws exactly on a second argument that is
  \<open>bad\<close> and puts bad elements first (\<^const>\<open>throws_on\<close>), a sort that returns has at most
  one bad element, in front (\<open>js_sort_bad_first\<close>), so two bad elements always abort it
  (\<open>js_sort_two_bad\<close>), one bad last element never does (\<open>js_sort_bad_only_last\<close>), a
  single bad element aborts it exactly under the condition of \<open>js_sort_one_bad_iff\<close>,
  and when it does not, the result is the bad element followed by the stable sort of the
  others (\<open>js_sort_one_bad_Inr\<close>).

  \<^bold>\<open>Findings.\<close> The build calls the preview service for the URLs the ownership rule
  calls absolute (those on the media host) and keeps the others, the opposite of the
  spec's section 8 (C5, C6). The card dereferences \<open>image.url\<close> although the build
  allows a project without an image (C21). The placeholder is computed but never
  rendered (C9). \<open>date ?? null\<close> feeds \<open>null\<close> to the date comparator (C12, C13).
  Whether an undated achievement aborts the build depends on where it stands and, in
  the middle of the content, on the dates around it, through the comparisons the binary
  insertion happens to make (C12, C13, C22, C24, and the two contents of
  \<open>achievements_undated_middle_depends\<close>).
  With \<open>fallback: false\<close> an unknown skill slug is a 404 rather than a build failure (C17).
  \<open>ProjectWithPlaceholderImage\<close> declares \<open>placeholderImage: string\<close>, but the build
  stores \<open>null\<close> there for every project without an image (C23). A slug shared by two
  skills is emitted twice by \<open>getStaticPaths\<close> and both paths show the first skill (C27).

  \<^bold>\<open>Modelling choices.\<close> No loop of the program is unbounded: every loop runs over a
  finite list, so every definition is a total \<^theory_text>\<open>fun\<close> or \<^theory_text>\<open>definition\<close> and no
  fuel is needed; the one loop whose recursion is not structural, the binary search
  \<^const>\<open>bin_pos\<close>, terminates by the measure \<open>right - left\<close>. The parallel tasks are an
  \<^theory_text>\<open>inductive\<close> step relation \<open>par_step\<close>; they model the spec's section 9, not code of
  the repository, and the sequential schedule of C26 is a run of it that ends.
  \<open>Array.prototype.sort\<close> is V8's algorithm for arrays of fewer than 64 elements, where
  the minimum run length is the array's length: one run found by \<open>CountAndMakeRun\<close> and
  extended by \<open>BinaryInsertionSort\<close>, with no merging. \<^const>\<open>js_sort\<close> applies it at
  every length, so its theorems are about the engine only for arrays of fewer than 64
  elements; the pages sort the projects and the achievements of a personal site, a
  handful each. JavaScript values (theory
  \<open>JsonValue\<close>) have integer numbers; \<open>NaN\<close> appears only as the result of a subtraction
  (\<open>None\<close>), which the sort reads as "not below 0", as V8 does. JavaScript numbers used
  as levels are integers (\<open>int\<close>); their subtraction is exact on the levels the content
  uses. \<open>localeCompare\<close> is modelled as code-unit order, which agrees with the default
  collation on ISO date strings. External services (the preview-image service, the
  content API) are parameters: a function from URL to an answer or a rejection, a
  record of the API's content and reachability.

  \<^bold>\<open>Plan for extending the development.\<close> (1) The achievements' error path for
  content whose dates do not all sort below \<open>"null"\<close> (C12, C13, C22, C24 and C31 settle
  content with ISO dates). (2) The
  project detail route \<open>/projects/[slug]\<close> that the card links to, once its page is
  among the sources. (3) A model of \<open>next/image\<close>'s host check against
  \<^const>\<open>image_domains\<close>, with the property that every image URL the build accepts as
  absolute is loadable. (4) The client side of the pages (React's hydration and the
  \<open>next/image\<close> component's own loading) as a second phase after the build. (5) V8's
  merge phase (galloping merges of runs) for arrays of 64 elements or more.

  \<^bold>\<open>Not modelled.\<close> The rendering of markup, styles and icons (\<open>IconFactory\<close>,
  \<open>NextSeo\<close>, \<open>Link\<close>), \<open>console.log\<close>, \<open>next/image\<close>'s loader, the body of
  \<open>cleanLink\<close> and \<open>getGitHubOwnerAndRepoFromLink\<close> (not in the sources), the
  achievement card component (not in the sources), and the Apollo client's caching.
  V8's TimSort merges, which run only on arrays of 64 elements or more. JavaScript
  numbers other than integers and the conversion of non-empty strings to numbers (the
  pages subtract only levels), and Next.js's checks of props other than \<open>undefined\<close>
  (functions, class instances, dates), which the pages never produce.
\<close>

definition projects_build ::
  "link_helpers \<Rightarrow> preview_service \<Rightarrow> project list \<Rightarrow> card_view list js_result \<times> string list" where
  "projects_build h svc allProjects =
     (case projects_getStaticProps svc allProjects of
        (props, log) \<Rightarrow> (js_bind props (ProjectsPage h), log))"

subsection \<open>The projects pipeline end to end\<close>

lemma projects_build_props:
  "fst (projects_build h svc ps) =
     js_bind (js_all (map (resolve_project svc) ps)) (ProjectsPage h)"
  by (simp add: projects_build_def split_beta projects_getStaticProps_def placeholders_loop_result)

text \<open>C20: with every project's image present and a preview service that always
  answers, the projects page builds, the service has been asked exactly for the
  absolute image URLs, and the cards are in the order of the projects' levels, highest
  first and stable.\<close>

theorem projects_build_ok:
  assumes images: "\<forall>p\<in>set ps. project_image p \<noteq> None" and answers: "\<forall>u. \<not> isl (svc u)"
  shows "\<exists>cards. projects_build h svc ps = (Inr cards, preview_requests ps) \<and>
           map heading cards = map name (sort_key (\<lambda>p. - js_or_zero (level p)) ps)"
proof -
  let ?f = "\<lambda>q. - js_or_zero (level q)"
  have "\<forall>p\<in>set ps. \<exists>q. resolve_project svc p = Inr q"
    using resolve_project_Inr[OF answers] by blast
  then have "\<forall>r\<in>set (map (resolve_project svc) ps). \<not> isl r" by auto
  then obtain qs where qs: "js_all (map (resolve_project svc) ps) = Inr qs"
    using js_all_no_isl by blast
  then have keep: "map project.truncate qs = ps" by (rule resolve_all_keeps)
  have built: "projects_getStaticProps svc ps = (Inr qs, preview_requests ps)"
    using qs placeholders_loop_log_Inr[of svc ps "[]" "[]" qs]
    by (simp add: projects_getStaticProps_def placeholders_loop_result prod_eq_iff)
  have "\<forall>q\<in>set qs. project_image q \<noteq> None"
    using images keep by auto
  then have "\<forall>q\<in>set (sort_key ?f qs). \<exists>v. ProjectCard h (card_props q) = Inr v"
    by (auto simp: ProjectCard_Inr_iff card_props_def)
  then obtain cards where cards: "js_all (map (\<lambda>q. ProjectCard h (card_props q)) (sort_key ?f qs)) = Inr cards"
    using js_all_no_isl[of "map (\<lambda>q. ProjectCard h (card_props q)) (sort_key ?f qs)"]
    by (fastforce simp: isl_def)
  then have "map (\<lambda>q. ProjectCard h (card_props q)) (sort_key ?f qs) = map Inr cards"
    by (simp add: js_all_eq_Inr)
  then have "map heading cards = map name (sort_key ?f qs)"
    by (rule map_Inr_rel) (auto simp: ProjectCard_heading card_props_def)
  moreover have "map name (sort_key ?f qs) = map name (sort_key ?f ps)"
    by (simp add: keep[symmetric] sort_key_map)
  moreover have "ProjectsPage h qs = Inr cards"
    using cards by (simp add: ProjectsPage_def projects_sort_eq)
  ultimately show ?thesis
    using built by (auto simp: projects_build_def)
qed

text \<open>C21: one project without an image fails the build of the projects page,
  whatever the preview service does: \<open>getStaticProps\<close> gives it the placeholder
  \<open>null\<close>, and the card then reads \<open>image.url\<close>.\<close>

theorem projects_build_fails_without_image:
  "\<exists>p\<in>set ps. project_image p = None \<Longrightarrow> \<exists>e. fst (projects_build h svc ps) = Inl e"
proof -
  assume missing: "\<exists>p\<in>set ps. project_image p = None"
  show ?thesis
  proof (cases "js_all (map (resolve_project svc) ps)")
    case (Inl e)
    then show ?thesis by (simp add: projects_build_props)
  next
    case (Inr qs)
    then have "map project.truncate qs = ps" by (rule resolve_all_keeps)
    moreover from missing obtain p where "p \<in> set ps" and "project_image p = None" by blast
    ultimately obtain q where "q \<in> set qs" and "project.truncate q = p" by auto
    with \<open>project_image p = None\<close> have "\<exists>q\<in>set qs. project_image q = None"
      by (metis truncate_fields(3))
    then obtain e where "ProjectsPage h qs = Inl e"
      using ProjectsPage_Inl_iff[of h qs] by blast
    with Inr show ?thesis by (simp add: projects_build_props)
  qed
qed

text \<open>C4: on both listing pages the engine's sort (V8's run detection and binary
  insertion, \<^const>\<open>js_sort\<close>) returns what the reference stable insertion sort
  \<^const>\<open>js_sort_ref\<close> returns: always for the projects' level comparator, and for the
  achievements' date comparator when every achievement is dated. The order of the pages
  does not depend on which comparisons the engine makes.\<close>

theorem sorts_engine_eq_reference:
  "js_sort level_cmp qs = js_sort_ref level_cmp qs \<and>
   ((\<forall>a\<in>set xs. date a \<noteq> None) \<longrightarrow>
      js_sort date_cmp (map clean_achievement xs) = js_sort_ref date_cmp (map clean_achievement xs))"
  using js_sort_eq_ref[OF level_cmp_descending] js_sort_eq_ref[OF date_cmp_descending[OF dated_clean]]
  by blast

subsection \<open>The end-to-end properties on concrete inputs\<close>

theorem projects_build_ok_witness:
  "\<exists>cards. projects_build demo_helpers (\<lambda>u. Inr None)
        [demo_project, demo_project\<lparr>name := ''portfolio-v2'', level := Some 5\<rparr>] =
      (Inr cards, [url demo_image, url demo_image]) \<and>
     map heading cards = [''portfolio-v2'', ''harry-stage'']"
  using projects_build_ok[of "[demo_project, demo_project\<lparr>name := ''portfolio-v2'', level := Some 5\<rparr>]"
      "\<lambda>u. Inr None" demo_helpers] demo_image_absolute
  by (simp add: preview_requests_def)

theorem projects_build_fails_without_image_witness:
  "\<exists>e. fst (projects_build demo_helpers (\<lambda>u. Inr None)
        [demo_project, demo_project\<lparr>project_image := None\<rparr>]) = Inl e"
  by (rule projects_build_fails_without_image) simp

theorem sorts_engine_eq_reference_witness:
  "js_sort level_cmp [with_placeholder demo_project None, with_placeholder (demo_project\<lparr>level := Some 5\<rparr>) None]
     = js_sort_ref level_cmp [with_placeholder demo_project None, with_placeholder (demo_project\<lparr>level := Some 5\<rparr>) None] \<and>
   js_sort date_cmp (map clean_achievement
       [demo_achievement ''a1'' (Some ''2021-11-20''), demo_achievement ''a2'' (Some ''2022-05-01'')])
     = js_sort_ref date_cmp (map clean_achievement
       [demo_achievement ''a1'' (Some ''2021-11-20''), demo_achievement ''a2'' (Some ''2022-05-01'')])"
  using sorts_engine_eq_reference[of "[with_placeholder demo_project None,
      with_placeholder (demo_project\<lparr>level := Some 5\<rparr>) None]"
      "[demo_achievement ''a1'' (Some ''2021-11-20''), demo_achievement ''a2'' (Some ''2022-05-01'')]"]
  by simp

end
